theory Spec2Isabelle
  imports Complex_Main "HOL-Library.Stream"
begin

section \<open>Data model\<close>

text \<open>
  The repository samples two points on the boundary of the square \<open>[0, L] \<times> [0, L]\<close> and
  aggregates statistics of their distance.  A finite Python \<open>float\<close> is an IEEE 754
  binary64 number and is modelled as the real number it denotes; \<open>is_double\<close> below
  tells which reals are such numbers.  The arithmetic of the perimeter parametrization
  (\<open>_perimeter_to_xy\<close>, the inner \<open>point\<close> of \<open>sample_parametric\<close>) and of
  \<open>angle_to_point\<close> is modelled with the rounding of every operation: the
  properties of these functions depend on it.  The other arithmetic
  (\<open>random.uniform\<close>, the tests of the retry loops, the ray intersection of
  \<open>sample_polar_ray\<close>, the distance and the statistics of the aggregator) is
  modelled exact.  A \<open>Point\<close> is a pair of such numbers.
\<close>

type_synonym point = "real \<times> real"

text \<open>The exceptions the modelled code can raise; \<open>OtherError\<close> stands for any
  other \<open>Exception\<close> a strategy handed to the aggregator may raise.\<close>

datatype exn = ValueError | ZeroDivisionError | IndexError | TypeError | OtherError

subsection \<open>Floating-point arithmetic\<close>

text \<open>
  Rounding to the nearest binary64 number, ties to the even significand.  A number
  \<open>x\<close> with \<open>2^k \<le> \<bar>x\<bar> < 2^(k+1)\<close> is rounded to a multiple of \<open>2^(k-52)\<close>, and to a
  multiple of \<open>2^(-1074)\<close> in the subnormal range.  Overflow to an infinity is not
  part of \<open>fl64\<close>: the properties below are stated for a side length below
  \<open>2^1022\<close>, for which no operation of the code overflows.
\<close>

definition pow2 :: "int \<Rightarrow> real" where
  "pow2 e = (if 0 \<le> e then 2 ^ nat e else 1 / 2 ^ nat (- e))"

definition round_half_even :: "real \<Rightarrow> int" where
  "round_half_even y =
     (let f = \<lfloor>y\<rfloor>; d = y - of_int f
      in if d < 1 / 2 then f else if 1 / 2 < d then f + 1 else if even f then f else f + 1)"

text \<open>The exponent of the unit in the last place of the doubles around \<open>x\<close>.\<close>

definition float_exponent :: "real \<Rightarrow> int" where
  "float_exponent x = max (\<lfloor>log 2 \<bar>x\<bar>\<rfloor> - 52) (- 1074)"

definition fl64 :: "real \<Rightarrow> real" where
  "fl64 x =
     (if x = 0 then 0
      else of_int (round_half_even (x / pow2 (float_exponent x))) * pow2 (float_exponent x))"

text \<open>The finite doubles: the numbers that rounding leaves as they are, below
  \<open>2^1024\<close> in magnitude.\<close>

definition is_double :: "real \<Rightarrow> bool" where
  "is_double x \<longleftrightarrow> fl64 x = x \<and> \<bar>x\<bar> < pow2 1024"

text \<open>Python's \<open>+\<close>, \<open>-\<close> and \<open>*\<close> on floats.\<close>

definition fadd :: "real \<Rightarrow> real \<Rightarrow> real" where
  "fadd a b = fl64 (a + b)"

definition fsub :: "real \<Rightarrow> real \<Rightarrow> real" where
  "fsub a b = fl64 (a - b)"

definition fmul :: "real \<Rightarrow> real \<Rightarrow> real" where
  "fmul a b = fl64 (a * b)"

text \<open>Python's \<open>/\<close> on floats raises \<open>ZeroDivisionError\<close> on a zero divisor.\<close>

definition py_fdiv :: "real \<Rightarrow> real \<Rightarrow> exn + real" where
  "py_fdiv a b = (if b = 0 then Inl ZeroDivisionError else Inr (fl64 (a / b)))"

subsection \<open>The pseudorandom source\<close>

text \<open>
  \<open>random.random()\<close> returns the next number of the generator, in \<open>[0, 1)\<close>.  The
  generator is modelled as the stream of these numbers, and a call returns its value
  together with the rest of the stream.  \<open>random.uniform(a, b)\<close> is
  \<open>a + (b - a) * random()\<close>; \<open>random.choice(seq)\<close> returns the element at a
  random index below \<open>len(seq)\<close>, modelled as \<open>\<lfloor>u * len(seq)\<rfloor>\<close> for the next
  number \<open>u\<close>.
\<close>

type_synonym rng = "real stream"

definition unit_draws :: "rng \<Rightarrow> bool" where
  "unit_draws s \<longleftrightarrow> (\<forall>u \<in> sset s. 0 \<le> u \<and> u < 1)"

definition random :: "rng \<Rightarrow> real \<times> rng" where
  "random s = (shd s, stl s)"

definition uniform :: "real \<Rightarrow> real \<Rightarrow> rng \<Rightarrow> real \<times> rng" where
  "uniform a b s = (a + (b - a) * shd s, stl s)"

definition choice :: "'a list \<Rightarrow> rng \<Rightarrow> 'a \<times> rng" where
  "choice seq s = (seq ! nat \<lfloor>shd s * real (length seq)\<rfloor>, stl s)"

section \<open>Geometry primitives (utils/helpers.py, square\_points.py)\<close>

definition is_on_perimeter :: "point \<Rightarrow> real \<Rightarrow> real \<Rightarrow> bool" where
  "is_on_perimeter p L tol =
     (case p of (x, y) \<Rightarrow>
        let on_bottom = (\<bar>y\<bar> < tol \<and> 0 \<le> x \<and> x \<le> L);
            on_top = (\<bar>y - L\<bar> < tol \<and> 0 \<le> x \<and> x \<le> L);
            on_left = (\<bar>x\<bar> < tol \<and> 0 \<le> y \<and> y \<le> L);
            on_right = (\<bar>x - L\<bar> < tol \<and> 0 \<le> y \<and> y \<le> L)
        in on_bottom \<or> on_top \<or> on_left \<or> on_right)"

definition side_of :: "point \<Rightarrow> real \<Rightarrow> real \<Rightarrow> string" where
  "side_of p L tol =
     (case p of (x, y) \<Rightarrow>
        let sides = (if \<bar>y\<bar> < tol then [''bottom''] else [])
                  @ (if \<bar>y - L\<bar> < tol then [''top''] else [])
                  @ (if \<bar>x\<bar> < tol then [''left''] else [])
                  @ (if \<bar>x - L\<bar> < tol then [''right''] else [])
        in if length sides > 1 then ''corner''
           else (case sides of [] \<Rightarrow> ''off'' | s # _ \<Rightarrow> s))"

definition euclidean :: "point \<Rightarrow> point \<Rightarrow> real" where
  "euclidean p1 p2 = sqrt ((fst p1 - fst p2)\<^sup>2 + (snd p1 - snd p2)\<^sup>2)"

definition are_distinct :: "point \<Rightarrow> point \<Rightarrow> real \<Rightarrow> bool" where
  "are_distinct p1 p2 tol \<longleftrightarrow> \<bar>fst p1 - fst p2\<bar> > tol \<or> \<bar>snd p1 - snd p2\<bar> > tol"

text \<open>\<open>_is_distinct\<close> of square\_points.py, the same test as \<open>are_distinct\<close>.\<close>

definition is_distinct :: "point \<Rightarrow> point \<Rightarrow> real \<Rightarrow> bool" where
  "is_distinct p1 p2 tol \<longleftrightarrow> \<bar>fst p1 - fst p2\<bar> > tol \<or> \<bar>snd p1 - snd p2\<bar> > tol"

text \<open>The default tolerances \<open>1e-9\<close> and \<open>1e-12\<close>.\<close>

definition tol9 :: real where
  "tol9 = 1 / 10 ^ 9"

definition tol12 :: real where
  "tol12 = 1 / 10 ^ 12"

text \<open>The four nearness tests of \<open>side_of\<close>, in the order bottom, top, left, right,
  and the number of them a point passes.\<close>

definition near_sides :: "point \<Rightarrow> real \<Rightarrow> real \<Rightarrow> bool list" where
  "near_sides p L tol =
     [\<bar>snd p\<bar> < tol, \<bar>snd p - L\<bar> < tol, \<bar>fst p\<bar> < tol, \<bar>fst p - L\<bar> < tol]"

definition near_count :: "point \<Rightarrow> real \<Rightarrow> real \<Rightarrow> nat" where
  "near_count p L tol = length (filter (\<lambda>b. b) (near_sides p L tol))"

section \<open>Perimeter parametrization\<close>

text \<open>
  Python's \<open>%\<close> on floats.  A zero divisor raises \<open>ZeroDivisionError\<close>.  Otherwise
  the remainder is that of C's \<open>fmod\<close>, which is exact and has the sign of the
  dividend (the quotient is truncated towards zero); when it is not zero and its sign
  is not the sign of the divisor, the divisor is added to it, and this addition
  rounds.
\<close>

definition c_trunc :: "real \<Rightarrow> int" where
  "c_trunc x = (if 0 \<le> x then \<lfloor>x\<rfloor> else \<lceil>x\<rceil>)"

definition c_fmod :: "real \<Rightarrow> real \<Rightarrow> real" where
  "c_fmod x y = x - y * of_int (c_trunc (x / y))"

definition py_fmod :: "real \<Rightarrow> real \<Rightarrow> exn + real" where
  "py_fmod t m =
     (if m = 0 then Inl ZeroDivisionError
      else let r = c_fmod t m
           in Inr (if r \<noteq> 0 then (if (m < 0) \<noteq> (r < 0) then fadd r m else r)
                   else 0))"

text \<open>\<open>_perimeter_to_xy\<close>.\<close>

definition perimeter_to_xy :: "real \<Rightarrow> real \<Rightarrow> exn + point" where
  "perimeter_to_xy t L =
     (case py_fmod t (fmul 4 L) of
        Inl e \<Rightarrow> Inl e
      | Inr t \<Rightarrow>
          if t < L then Inr (t, 0)
          else if t < fmul 2 L then Inr (L, fsub t L)
          else if t < fmul 3 L then Inr (fsub L (fsub t (fmul 2 L)), L)
          else Inr (0, fsub L (fsub t (fmul 3 L))))"

section \<open>Sampling strategies (square\_points.py)\<close>

subsection \<open>The retry loop\<close>

text \<open>
  Each strategy draws a first and a second value and then runs
  \<^verbatim>\<open>while <test>: <draw the second value again>\<close>.
  No iteration cap is part of the code, so the loop may run forever; the result
  \<open>None\<close> stands for a call that never returns.
\<close>

partial_function (option) retry_while ::
  "('a \<Rightarrow> bool) \<Rightarrow> (rng \<Rightarrow> 'a \<times> rng) \<Rightarrow> 'a \<Rightarrow> rng \<Rightarrow> ('a \<times> rng) option" where
  "retry_while retry redraw b s =
     (if retry b then (case redraw s of (b', s') \<Rightarrow> retry_while retry redraw b' s')
      else Some (b, s))"

text \<open>The result of a strategy: no return (\<open>None\<close>), or an exception or a pair of
  points, with the generator as the call leaves it.\<close>

type_synonym sample_result = "((exn + point \<times> point) \<times> rng) option"

subsection \<open>1. sample\_parametric\<close>

text \<open>The inner function \<open>point\<close> of \<open>sample_parametric\<close>.\<close>

definition point_parametric :: "real \<Rightarrow> real \<Rightarrow> point" where
  "point_parametric L t =
     (if t < L then (t, 0)
      else if t < fmul 2 L then (L, fsub t L)
      else if t < fmul 3 L then (fsub (fmul 3 L) t, L)
      else (0, fsub (fmul 4 L) t))"

definition sample_parametric :: "real \<Rightarrow> rng \<Rightarrow> sample_result" where
  "sample_parametric L s0 =
     (case uniform 0 (fmul 4 L) s0 of (t1, s1) \<Rightarrow>
      case uniform 0 (fmul 4 L) s1 of (t2, s2) \<Rightarrow>
      (case retry_while (\<lambda>t2. \<bar>t1 - t2\<bar> < tol12) (uniform 0 (fmul 4 L)) t2 s2 of
        None \<Rightarrow> None
      | Some (t2, s3) \<Rightarrow> Some (Inr (point_parametric L t1, point_parametric L t2), s3)))"

subsection \<open>2. sample\_by\_side\<close>

definition SIDES :: "string list" where
  "SIDES = [''bottom'', ''top'', ''left'', ''right'']"

definition choose_point :: "real \<Rightarrow> string \<Rightarrow> rng \<Rightarrow> point \<times> rng" where
  "choose_point L side s =
     (case uniform 0 L s of (v, s') \<Rightarrow>
        (if side = ''bottom'' then (v, 0)
         else if side = ''top'' then (v, L)
         else if side = ''left'' then (0, v)
         else (L, v), s'))"

text \<open>The expression \<open>choose_point(random.choice(SIDES))\<close>: the side is drawn
  first, the position second.\<close>

definition draw_by_side :: "real \<Rightarrow> rng \<Rightarrow> point \<times> rng" where
  "draw_by_side L s = (case choice SIDES s of (side, s') \<Rightarrow> choose_point L side s')"

definition sample_by_side :: "real \<Rightarrow> rng \<Rightarrow> sample_result" where
  "sample_by_side L s0 =
     (case draw_by_side L s0 of (p1, s1) \<Rightarrow>
      case draw_by_side L s1 of (p2, s2) \<Rightarrow>
      (case retry_while (\<lambda>p2. \<not> is_distinct p1 p2 tol12) (draw_by_side L) p2 s2 of
        None \<Rightarrow> None
      | Some (p2, s3) \<Rightarrow> Some (Inr (p1, p2), s3)))"

subsection \<open>3. sample\_by\_edge\_label\<close>

definition EDGES :: "string list" where
  "EDGES = [''x0'', ''xL'', ''y0'', ''yL'']"

definition point_edge :: "real \<Rightarrow> string \<Rightarrow> rng \<Rightarrow> point \<times> rng" where
  "point_edge L edge s =
     (case uniform 0 L s of (v, s') \<Rightarrow>
        (if edge = ''x0'' then (0, v)
         else if edge = ''xL'' then (L, v)
         else if edge = ''y0'' then (v, 0)
         else (v, L), s'))"

definition draw_by_edge :: "real \<Rightarrow> rng \<Rightarrow> point \<times> rng" where
  "draw_by_edge L s = (case choice EDGES s of (edge, s') \<Rightarrow> point_edge L edge s')"

definition sample_by_edge_label :: "real \<Rightarrow> rng \<Rightarrow> sample_result" where
  "sample_by_edge_label L s0 =
     (case draw_by_edge L s0 of (p1, s1) \<Rightarrow>
      case draw_by_edge L s1 of (p2, s2) \<Rightarrow>
      (case retry_while (\<lambda>p2. \<not> is_distinct p1 p2 tol12) (draw_by_edge L) p2 s2 of
        None \<Rightarrow> None
      | Some (p2, s3) \<Rightarrow> Some (Inr (p1, p2), s3)))"

subsection \<open>4. sample\_polar\_ray\<close>

text \<open>
  Python's \<open>min\<close> keeps the first of the smallest elements: it starts from the first
  element and replaces it whenever a later one is strictly smaller.  Tuples compare
  lexicographically; \<open>tuple_less\<close> is \<open><\<close> on the candidates \<open>(t, (x, y))\<close>.
\<close>

definition min_by :: "('a \<Rightarrow> 'a \<Rightarrow> bool) \<Rightarrow> 'a \<Rightarrow> 'a list \<Rightarrow> 'a" where
  "min_by lt x rest = fold (\<lambda>y best. if lt y best then y else best) rest x"

definition tuple_less :: "real \<times> point \<Rightarrow> real \<times> point \<Rightarrow> bool" where
  "tuple_less a b \<longleftrightarrow>
     fst a < fst b
     \<or> (fst a = fst b
        \<and> (fst (snd a) < fst (snd b)
           \<or> (fst (snd a) = fst (snd b) \<and> snd (snd a) < snd (snd b))))"

text \<open>The inner function \<open>intersection\<close>; both divisions are guarded by the tests
  \<open>dx != 0\<close> and \<open>dy != 0\<close>.\<close>

definition intersection :: "real \<Rightarrow> real \<Rightarrow> point" where
  "intersection L theta =
     (let cx = L / 2; cy = L / 2;
          dx = cos theta; dy = sin theta;
          candidates =
            (if dx \<noteq> 0
             then concat (map (\<lambda>xw. let t = (xw - cx) / dx; y = cy + t * dy
                                    in if t > 0 \<and> 0 \<le> y \<and> y \<le> L then [(t, (xw, y))] else [])
                              [0, L])
             else [])
            @ (if dy \<noteq> 0
               then concat (map (\<lambda>yw. let t = (yw - cy) / dy; x = cx + t * dx
                                      in if t > 0 \<and> 0 \<le> x \<and> x \<le> L then [(t, (x, yw))] else [])
                                [0, L])
               else [])
      in case candidates of
           [] \<Rightarrow> (cx, 0)
         | c # rest \<Rightarrow> snd (min_by tuple_less c rest))"

definition sample_polar_ray :: "real \<Rightarrow> rng \<Rightarrow> sample_result" where
  "sample_polar_ray L s0 =
     (case uniform 0 (2 * pi) s0 of (t1, s1) \<Rightarrow>
      case uniform 0 (2 * pi) s1 of (t2, s2) \<Rightarrow>
      (case retry_while (\<lambda>t2. \<bar>t1 - t2\<bar> < tol12) (uniform 0 (2 * pi)) t2 s2 of
        None \<Rightarrow> None
      | Some (t2, s3) \<Rightarrow> Some (Inr (intersection L t1, intersection L t2), s3)))"

subsection \<open>5. sample\_side\_pos\<close>

text \<open>The inner function \<open>point\<close> of \<open>sample_side_pos\<close>.\<close>

definition point_side_pos :: "real \<Rightarrow> string \<Rightarrow> real \<Rightarrow> point" where
  "point_side_pos L side v =
     (if side = ''bottom'' then (v, 0)
      else if side = ''top'' then (v, L)
      else if side = ''left'' then (0, v)
      else (L, v))"

text \<open>The body of the loop: \<open>side2 = random.choice(SIDES); s2 = random.uniform(0, L)\<close>.\<close>

definition redraw_side_pos :: "real \<Rightarrow> rng \<Rightarrow> (string \<times> real) \<times> rng" where
  "redraw_side_pos L s =
     (case choice SIDES s of (side2, s') \<Rightarrow>
      case uniform 0 L s' of (v2, s'') \<Rightarrow> ((side2, v2), s''))"

definition sample_side_pos :: "real \<Rightarrow> rng \<Rightarrow> sample_result" where
  "sample_side_pos L s0 =
     (case choice SIDES s0 of (side1, sa) \<Rightarrow>
      case choice SIDES sa of (side2, sb) \<Rightarrow>
      case uniform 0 L sb of (v1, sc) \<Rightarrow>
      case uniform 0 L sc of (v2, sd) \<Rightarrow>
      (case retry_while (\<lambda>(side2, v2). side1 = side2 \<and> \<bar>v1 - v2\<bar> < tol12)
             (redraw_side_pos L) (side2, v2) sd of
        None \<Rightarrow> None
      | Some ((side2, v2), s3) \<Rightarrow>
          Some (Inr (point_side_pos L side1 v1, point_side_pos L side2 v2), s3)))"

subsection \<open>6. sample\_parametric\_modular\<close>

definition sample_parametric_modular :: "real \<Rightarrow> rng \<Rightarrow> sample_result" where
  "sample_parametric_modular L s0 =
     (case uniform 0 (fmul 4 L) s0 of (t1, s1) \<Rightarrow>
      case uniform 0 (fmul 4 L) s1 of (t2, s2) \<Rightarrow>
      (case retry_while (\<lambda>t2. \<bar>t1 - t2\<bar> < tol12) (uniform 0 (fmul 4 L)) t2 s2 of
        None \<Rightarrow> None
      | Some (t2, s3) \<Rightarrow>
          (case perimeter_to_xy t1 L of
             Inl e \<Rightarrow> Some (Inl e, s3)
           | Inr p1 \<Rightarrow>
               (case perimeter_to_xy t2 L of
                  Inl e \<Rightarrow> Some (Inl e, s3)
                | Inr p2 \<Rightarrow> Some (Inr (p1, p2), s3)))))"

subsection \<open>7. sample\_cartesian\<close>

text \<open>The inner function \<open>pick_point\<close>; a tuple is evaluated from left to right.\<close>

definition pick_cartesian :: "real \<Rightarrow> rng \<Rightarrow> point \<times> rng" where
  "pick_cartesian L s =
     (case random s of (r, s1) \<Rightarrow>
        if r < 1 / 2
        then (case choice [0, L] s1 of (x, s2) \<Rightarrow>
              case uniform 0 L s2 of (y, s3) \<Rightarrow> ((x, y), s3))
        else (case uniform 0 L s1 of (x, s2) \<Rightarrow>
              case choice [0, L] s2 of (y, s3) \<Rightarrow> ((x, y), s3)))"

definition sample_cartesian :: "real \<Rightarrow> rng \<Rightarrow> sample_result" where
  "sample_cartesian L s0 =
     (case pick_cartesian L s0 of (p1, s1) \<Rightarrow>
      case pick_cartesian L s1 of (p2, s2) \<Rightarrow>
      (case retry_while (\<lambda>p2. \<not> is_distinct p1 p2 tol12) (pick_cartesian L) p2 s2 of
        None \<Rightarrow> None
      | Some (p2, s3) \<Rightarrow> Some (Inr (p1, p2), s3)))"

subsection \<open>8. sample\_polar\_angle\<close>

text \<open>The inner function \<open>angle_to_point\<close>, with the rounding of each operation;
  \<open>math.cos\<close> and \<open>math.sin\<close> are taken to return the double nearest to the cosine
  and the sine.\<close>

definition angle_to_point :: "real \<Rightarrow> real \<Rightarrow> exn + point" where
  "angle_to_point L theta =
     (let cx = fl64 (L / 2); cy = fl64 (L / 2);
          cos_t = fl64 (cos theta); sin_t = fl64 (sin theta);
          half = fl64 (L / 2)
      in case (if \<bar>cos_t\<bar> \<ge> \<bar>sin_t\<bar> then py_fdiv half \<bar>cos_t\<bar>
               else py_fdiv half \<bar>sin_t\<bar>) of
           Inl e \<Rightarrow> Inl e
         | Inr scale \<Rightarrow>
             Inr (max 0 (min L (fadd cx (fmul cos_t scale))),
                  max 0 (min L (fadd cy (fmul sin_t scale)))))"

definition sample_polar_angle :: "real \<Rightarrow> rng \<Rightarrow> sample_result" where
  "sample_polar_angle L s0 =
     (case uniform 0 (2 * pi) s0 of (theta1, s1) \<Rightarrow>
      case uniform 0 (2 * pi) s1 of (theta2, s2) \<Rightarrow>
      (case retry_while (\<lambda>theta2. \<bar>theta1 - theta2\<bar> < tol12) (uniform 0 (2 * pi)) theta2 s2 of
        None \<Rightarrow> None
      | Some (theta2, s3) \<Rightarrow>
          (case angle_to_point L theta1 of
             Inl e \<Rightarrow> Some (Inl e, s3)
           | Inr p1 \<Rightarrow>
               (case angle_to_point L theta2 of
                  Inl e \<Rightarrow> Some (Inl e, s3)
                | Inr p2 \<Rightarrow> Some (Inr (p1, p2), s3)))))"

subsection \<open>9. sample\_interior\_projection\<close>

text \<open>The inner function \<open>project_to_border\<close>.  The dictionary \<open>d\<close> keeps its four
  keys in insertion order, and \<open>min(d, key=d.get)\<close> is the first key of least value.\<close>

definition project_to_border :: "real \<Rightarrow> real \<Rightarrow> real \<Rightarrow> point" where
  "project_to_border L x y =
     (let nearest = fst (min_by (\<lambda>a b. snd a < snd b) (''bottom'', y)
                           [(''top'', L - y), (''left'', x), (''right'', L - x)])
      in if nearest = ''bottom'' then (x, 0)
         else if nearest = ''top'' then (x, L)
         else if nearest = ''left'' then (0, y)
         else (L, y))"

definition pick_interior :: "real \<Rightarrow> rng \<Rightarrow> point \<times> rng" where
  "pick_interior L s =
     (case uniform 0 L s of (x, s1) \<Rightarrow>
      case uniform 0 L s1 of (y, s2) \<Rightarrow> (project_to_border L x y, s2))"

definition sample_interior_projection :: "real \<Rightarrow> rng \<Rightarrow> sample_result" where
  "sample_interior_projection L s0 =
     (case pick_interior L s0 of (p1, s1) \<Rightarrow>
      case pick_interior L s1 of (p2, s2) \<Rightarrow>
      (case retry_while (\<lambda>p2. \<not> is_distinct p1 p2 tol12) (pick_interior L) p2 s2 of
        None \<Rightarrow> None
      | Some (p2, s3) \<Rightarrow> Some (Inr (p1, p2), s3)))"

subsection \<open>The sampler base class (core/base.py)\<close>

text \<open>The argument of the constructor is any Python \<open>float\<close>: a finite number, an
  infinity or a NaN.  \<open>le_zero\<close> is the test \<open>L <= 0\<close>, which a NaN fails.\<close>

datatype pyfloat = Finite real | PlusInf | MinusInf | NaN

definition le_zero :: "pyfloat \<Rightarrow> bool" where
  "le_zero v = (case v of Finite x \<Rightarrow> x \<le> 0 | PlusInf \<Rightarrow> False
                | MinusInf \<Rightarrow> True | NaN \<Rightarrow> False)"

record perimeter_sampler =
  sampler_L :: pyfloat

text \<open>\<open>PerimeterSampler.__init__\<close>.\<close>

definition PerimeterSampler_init :: "pyfloat \<Rightarrow> exn + perimeter_sampler" where
  "PerimeterSampler_init L =
     (if le_zero L then Inl ValueError else Inr \<lparr>sampler_L = L\<rparr>)"

text \<open>
  Constructing an object.  \<open>PerimeterSampler\<close> derives from \<open>ABC\<close> and its method
  \<open>sample\<close> is abstract, so the call \<open>PerimeterSampler(L)\<close> raises \<open>TypeError\<close>
  before \<open>__init__\<close> runs.  The repository has no subclass; for a subclass that
  implements \<open>sample\<close> and inherits \<open>__init__\<close>, the call runs \<open>__init__\<close>.
\<close>

datatype sampler_class = AbstractBase | ConcreteSubclass

definition construct :: "sampler_class \<Rightarrow> pyfloat \<Rightarrow> exn + perimeter_sampler" where
  "construct c L =
     (case c of AbstractBase \<Rightarrow> Inl TypeError | ConcreteSubclass \<Rightarrow> PerimeterSampler_init L)"

section \<open>Distance and statistics aggregator (distance\_analysis.py, distance\_analysis\_stat.py)\<close>

text \<open>
  The aggregator calls every strategy of the table \<open>METHODS\<close> once per trial.  The
  table is a parameter of the model: a list of named strategies, where a strategy is a
  call that, from a state \<open>'s\<close> of the pseudorandom source, returns a pair of points
  or raises, and leaves a new state.
\<close>

type_synonym 's strategy = "real \<Rightarrow> 's \<Rightarrow> (exn + point \<times> point) \<times> 's"

subsection \<open>Python built-ins used by the aggregator\<close>

text \<open>Python's \<open>/\<close> raises \<open>ZeroDivisionError\<close> on a zero divisor.\<close>

definition py_div :: "real \<Rightarrow> real \<Rightarrow> exn + real" where
  "py_div a b = (if b = 0 then Inl ZeroDivisionError else Inr (a / b))"

text \<open>\<open>math.isclose(a, b, rel_tol=r)\<close> with the default \<open>abs_tol = 0\<close>.\<close>

definition isclose :: "real \<Rightarrow> real \<Rightarrow> real \<Rightarrow> bool" where
  "isclose a b r \<longleftrightarrow> a = b \<or> \<bar>a - b\<bar> \<le> max (r * max \<bar>a\<bar> \<bar>b\<bar>) 0"

definition rel_tol :: real where
  "rel_tol = 1 / 10 ^ 9"

text \<open>\<open>min\<close> and \<open>max\<close> of a sequence raise \<open>ValueError\<close> on an empty one; \<open>max\<close>
  keeps the first of the largest elements.\<close>

definition max_by :: "('a \<Rightarrow> 'a \<Rightarrow> bool) \<Rightarrow> 'a \<Rightarrow> 'a list \<Rightarrow> 'a" where
  "max_by lt x rest = fold (\<lambda>y best. if lt best y then y else best) rest x"

definition py_min :: "real list \<Rightarrow> exn + real" where
  "py_min xs = (case xs of [] \<Rightarrow> Inl ValueError | x # rest \<Rightarrow> Inr (min_by (<) x rest))"

definition py_max :: "real list \<Rightarrow> exn + real" where
  "py_max xs = (case xs of [] \<Rightarrow> Inl ValueError | x # rest \<Rightarrow> Inr (max_by (<) x rest))"

text \<open>\<open>sum\<close> adds from the left, starting at \<open>0\<close>.\<close>

definition py_sum :: "'a::monoid_add list \<Rightarrow> 'a" where
  "py_sum xs = foldl (+) 0 xs"

text \<open>\<open>math.sqrt\<close> raises \<open>ValueError\<close> on a negative number.\<close>

definition py_sqrt :: "real \<Rightarrow> exn + real" where
  "py_sqrt v = (if v < 0 then Inl ValueError else Inr (sqrt v))"

text \<open>A loop whose body may raise stops at the first exception.\<close>

fun fold_exn :: "('a \<Rightarrow> 'b \<Rightarrow> exn + 'b) \<Rightarrow> 'a list \<Rightarrow> 'b \<Rightarrow> exn + 'b" where
  "fold_exn f [] b = Inr b"
| "fold_exn f (x # xs) b = (case f x b of Inl e \<Rightarrow> Inl e | Inr b' \<Rightarrow> fold_exn f xs b')"

text \<open>\<open>wins[i] += 1\<close> and \<open>distances[i].append(d)\<close>: an index out of range raises
  \<open>IndexError\<close>.\<close>

definition bump :: "nat \<Rightarrow> nat list \<Rightarrow> exn + nat list" where
  "bump i w = (if i < length w then Inr (w[i := w ! i + 1]) else Inl IndexError)"

definition append_at :: "nat \<Rightarrow> 'a \<Rightarrow> 'a list list \<Rightarrow> exn + 'a list list" where
  "append_at i d ds = (if i < length ds then Inr (ds[i := ds ! i @ [d]]) else Inl IndexError)"

subsection \<open>run\_all\<close>

text \<open>The dictionary that \<open>run_all\<close> returns.\<close>

record run_data =
  distances :: "real option list list"
  min_wins :: "nat list"
  max_wins :: "nat list"

text \<open>The inner loop over \<open>METHODS\<close>: a call that raises leaves \<open>None\<close> in the row.\<close>

fun run_row :: "(string \<times> 's strategy) list \<Rightarrow> real \<Rightarrow> 's \<Rightarrow> real option list \<times> 's" where
  "run_row [] L s = ([], s)"
| "run_row ((name, fn) # methods) L s =
     (case fn L s of
        (Inr (p1, p2), s') \<Rightarrow>
          (case run_row methods L s' of (row, s'') \<Rightarrow> (Some (euclidean p1 p2) # row, s''))
      | (Inl e, s') \<Rightarrow>
          (case run_row methods L s' of (row, s'') \<Rightarrow> (None # row, s'')))"

text \<open>\<open>valid = [(i, d) for i, d in enumerate(row) if d is not None]\<close>.\<close>

definition valid_of :: "real option list \<Rightarrow> (nat \<times> real) list" where
  "valid_of row =
     List.map_filter (\<lambda>(i, d). case d of None \<Rightarrow> None | Some x \<Rightarrow> Some (i, x))
       (enumerate 0 row)"

text \<open>The body of the loop \<open>for i, d in valid\<close>.\<close>

definition credit_step ::
  "real \<Rightarrow> real \<Rightarrow> nat \<times> real \<Rightarrow> nat list \<times> nat list \<Rightarrow> exn + nat list \<times> nat list" where
  "credit_step min_d max_d v wins =
     (case v of (i, d) \<Rightarrow>
      case wins of (mins, maxs) \<Rightarrow>
      (case (if isclose d min_d rel_tol then bump i mins else Inr mins) of
         Inl e \<Rightarrow> Inl e
       | Inr mins' \<Rightarrow>
           (case (if isclose d max_d rel_tol then bump i maxs else Inr maxs) of
              Inl e \<Rightarrow> Inl e
            | Inr maxs' \<Rightarrow> Inr (mins', maxs'))))"

text \<open>One iteration of the outer loop of \<open>run_all\<close>.\<close>

definition trial ::
  "(string \<times> 's strategy) list \<Rightarrow> real \<Rightarrow> run_data \<times> 's \<Rightarrow> exn + run_data \<times> 's" where
  "trial methods L st =
     (case st of (data, s) \<Rightarrow>
      case run_row methods L s of (row, s') \<Rightarrow>
      let valid = valid_of row in
      (case (if valid \<noteq> []
            then (case py_min (map snd valid) of
                    Inl e \<Rightarrow> Inl e
                  | Inr min_d \<Rightarrow>
                      (case py_max (map snd valid) of
                         Inl e \<Rightarrow> Inl e
                       | Inr max_d \<Rightarrow>
                           fold_exn (credit_step min_d max_d) valid
                             (min_wins data, max_wins data)))
            else Inr (min_wins data, max_wins data)) of
        Inl e \<Rightarrow> Inl e
      | Inr (mins, maxs) \<Rightarrow>
          (case fold_exn (\<lambda>(i, d) ds. append_at i d ds) (enumerate 0 row) (distances data) of
             Inl e \<Rightarrow> Inl e
           | Inr ds \<Rightarrow> Inr (\<lparr>distances = ds, min_wins = mins, max_wins = maxs\<rparr>, s'))))"

fun run_loop ::
  "(string \<times> 's strategy) list \<Rightarrow> real \<Rightarrow> nat \<Rightarrow> run_data \<times> 's \<Rightarrow> exn + run_data \<times> 's" where
  "run_loop methods L 0 st = Inr st"
| "run_loop methods L (Suc n) st =
     (case trial methods L st of Inl e \<Rightarrow> Inl e | Inr st' \<Rightarrow> run_loop methods L n st')"

text \<open>\<open>run_all\<close>; \<open>N\<close> is \<open>len(METHODS)\<close>, and \<open>range(iterations)\<close> makes
  \<open>iterations\<close> passes.\<close>

definition run_all ::
  "(string \<times> 's strategy) list \<Rightarrow> real \<Rightarrow> nat \<Rightarrow> 's \<Rightarrow> exn + run_data \<times> 's" where
  "run_all methods L iterations s =
     (let N = length methods
      in run_loop methods L iterations
           (\<lparr>distances = replicate N [], min_wins = replicate N 0, max_wins = replicate N 0\<rparr>, s))"

subsection \<open>summarize and analyze\<close>

text \<open>Python's \<open>/\<close> and the statistics that \<open>summarize\<close> and \<open>analyze\<close> both compute
  from a list of distances, line for line the same in the two functions.\<close>

type_synonym stats = "nat \<times> nat \<times> real \<times> real \<times> real \<times> real"

definition distance_stats :: "real list \<Rightarrow> real \<Rightarrow> exn + stats" where
  "distance_stats dlist L =
     (let attempts = length dlist;
          count_gt_L = py_sum (map (\<lambda>d. 1) (filter (\<lambda>d. d > L) dlist))
      in case py_div (py_sum dlist) (real attempts) of
           Inl e \<Rightarrow> Inl e
         | Inr mean \<Rightarrow>
             (case py_div (py_sum (map (\<lambda>d. (d - mean)\<^sup>2) dlist)) (real attempts) of
                Inl e \<Rightarrow> Inl e
              | Inr variance \<Rightarrow>
                  (case py_sqrt variance of
                     Inl e \<Rightarrow> Inl e
                   | Inr std \<Rightarrow>
                       (case py_min dlist of
                          Inl e \<Rightarrow> Inl e
                        | Inr d_min \<Rightarrow>
                            (case py_max dlist of
                               Inl e \<Rightarrow> Inl e
                             | Inr d_max \<Rightarrow>
                                 Inr (count_gt_L, attempts, mean, std, d_min, d_max))))))"

type_synonym summary = "nat \<times> nat \<times> real \<times> real \<times> real \<times> real \<times> nat \<times> nat"

text \<open>The body of the loop of \<open>summarize\<close> for the method of index \<open>i\<close>.\<close>

definition summarize_one :: "run_data \<Rightarrow> real \<Rightarrow> nat \<Rightarrow> exn + summary" where
  "summarize_one data L i =
     (if i < length (distances data)
      then (let dlist = List.map_filter (\<lambda>d. d) (distances data ! i)
            in if dlist = [] then Inr (0, 0, 0, 0, 0, 0, 0, 0)
               else (case distance_stats dlist L of
                       Inl e \<Rightarrow> Inl e
                     | Inr (count_gt_L, attempts, mean, std, d_min, d_max) \<Rightarrow>
                         if i < length (min_wins data) \<and> i < length (max_wins data)
                         then Inr (count_gt_L, attempts, mean, std, d_min, d_max,
                                   min_wins data ! i, max_wins data ! i)
                         else Inl IndexError))
      else Inl IndexError)"

fun summarize_loop :: "run_data \<Rightarrow> real \<Rightarrow> nat list \<Rightarrow> exn + summary list" where
  "summarize_loop data L [] = Inr []"
| "summarize_loop data L (i # is) =
     (case summarize_one data L i of
        Inl e \<Rightarrow> Inl e
      | Inr r \<Rightarrow>
          (case summarize_loop data L is of Inl e \<Rightarrow> Inl e | Inr rs \<Rightarrow> Inr (r # rs)))"

text \<open>\<open>summarize\<close>, for a table of \<open>N\<close> methods.\<close>

definition summarize :: "nat \<Rightarrow> run_data \<Rightarrow> real \<Rightarrow> exn + summary list" where
  "summarize N data L = summarize_loop data L [0..<N]"

text \<open>The loop of \<open>analyze\<close>: a call that raises is skipped.\<close>

fun analyze_distances :: "'s strategy \<Rightarrow> real \<Rightarrow> nat \<Rightarrow> 's \<Rightarrow> real list \<times> 's" where
  "analyze_distances method_fn L 0 s = ([], s)"
| "analyze_distances method_fn L (Suc n) s =
     (case method_fn L s of
        (Inr (p1, p2), s') \<Rightarrow>
          (case analyze_distances method_fn L n s' of
             (ds, s'') \<Rightarrow> (euclidean p1 p2 # ds, s''))
      | (Inl e, s') \<Rightarrow> analyze_distances method_fn L n s')"

definition analyze :: "'s strategy \<Rightarrow> real \<Rightarrow> nat \<Rightarrow> 's \<Rightarrow> exn + stats \<times> 's" where
  "analyze method_fn L iterations s =
     (case analyze_distances method_fn L iterations s of
        (dists, s') \<Rightarrow>
          if dists = [] then Inr ((0, 0, 0, 0, 0, 0), s')
          else (case distance_stats dists L of
                  Inl e \<Rightarrow> Inl e
                | Inr r \<Rightarrow> Inr (r, s')))"

section \<open>Notions used to state the properties of the strategies\<close>

subsection \<open>When a retry loop ends\<close>

text \<open>One pass of a retry loop replaces the second value by a new draw.  The loop
  ends when, after some number of passes, the value no longer passes the retry test.\<close>

definition redraw_step :: "(rng \<Rightarrow> 'a \<times> rng) \<Rightarrow> 'a \<times> rng \<Rightarrow> 'a \<times> rng" where
  "redraw_step redraw st = redraw (snd st)"

definition loop_exits :: "('a \<Rightarrow> bool) \<Rightarrow> (rng \<Rightarrow> 'a \<times> rng) \<Rightarrow> 'a \<Rightarrow> rng \<Rightarrow> bool" where
  "loop_exits retry redraw b s \<longleftrightarrow> (\<exists>k. \<not> retry (fst ((redraw_step redraw ^^ k) (b, s))))"

text \<open>For each strategy, the statement that its own loop ends on the draws \<open>s0\<close>:
  the first lines of the strategy, followed by \<open>loop_exits\<close> for its test and its
  redraw.  Strategies 1 and 6 run the same loop, and so do strategies 4 and 8.\<close>

definition parametric_exits :: "real \<Rightarrow> rng \<Rightarrow> bool" where
  "parametric_exits L s0 =
     (case uniform 0 (fmul 4 L) s0 of (t1, s1) \<Rightarrow>
      case uniform 0 (fmul 4 L) s1 of (t2, s2) \<Rightarrow>
        loop_exits (\<lambda>t2. \<bar>t1 - t2\<bar> < tol12) (uniform 0 (fmul 4 L)) t2 s2)"







subsection \<open>Results on the perimeter\<close>




text \<open>
  What holds of the points of the strategies whose coordinates are rounded.  A point
  is pinned when one of its coordinates is exactly \<open>0\<close> or \<open>L\<close>; it is near the
  square when both coordinates are within \<open>e\<close> of the interval \<open>[0, L]\<close>.  The error
  of one rounding of a number of magnitude at most \<open>B\<close> is at most
  \<open>rounding_error B\<close>, and \<open>slack L\<close> is four such errors for \<open>B = 4L\<close>.
\<close>

definition pinned :: "real \<Rightarrow> point \<Rightarrow> bool" where
  "pinned L p \<longleftrightarrow> fst p = 0 \<or> fst p = L \<or> snd p = 0 \<or> snd p = L"

definition near_square :: "real \<Rightarrow> real \<Rightarrow> point \<Rightarrow> bool" where
  "near_square e L p \<longleftrightarrow> - e \<le> fst p \<and> fst p \<le> L + e \<and> - e \<le> snd p \<and> snd p \<le> L + e"

definition rounding_error :: "real \<Rightarrow> real" where
  "rounding_error B = max (B / 2 ^ 53) (pow2 (- 1075))"

definition slack :: "real \<Rightarrow> real" where
  "slack L = 4 * rounding_error (4 * L)"

definition near_point :: "real \<Rightarrow> point \<Rightarrow> bool" where
  "near_point L p \<longleftrightarrow> pinned L p \<and> near_square (slack L) L p"

definition returns_near_perimeter :: "sample_result \<Rightarrow> real \<Rightarrow> bool" where
  "returns_near_perimeter r L =
     (case r of
        Some (Inr (p1, p2), s') \<Rightarrow> near_point L p1 \<and> near_point L p2
      | _ \<Rightarrow> False)"



text \<open>Two points within \<open>e\<close> of each other in both coordinates, and two results that
  are both no return, or both a pair of points, within \<open>e\<close> of each other, and the
  same generator.\<close>

definition close_within :: "real \<Rightarrow> point \<Rightarrow> point \<Rightarrow> bool" where
  "close_within e p q \<longleftrightarrow> \<bar>fst p - fst q\<bar> \<le> e \<and> \<bar>snd p - snd q\<bar> \<le> e"

definition results_close :: "real \<Rightarrow> sample_result \<Rightarrow> sample_result \<Rightarrow> bool" where
  "results_close e r1 r2 =
     (case r1 of
        None \<Rightarrow> r2 = None
      | Some (Inl x, s1) \<Rightarrow> False
      | Some (Inr (p1, p2), s1) \<Rightarrow>
          (case r2 of
             Some (Inr (q1, q2), s2) \<Rightarrow> close_within e p1 q1 \<and> close_within e p2 q2 \<and> s1 = s2
           | _ \<Rightarrow> False))"

text \<open>The nine sampling functions of the module.\<close>

definition sampling_functions :: "(real \<Rightarrow> rng \<Rightarrow> sample_result) list" where
  "sampling_functions =
     [sample_parametric, sample_by_side, sample_by_edge_label, sample_polar_ray,
      sample_side_pos, sample_parametric_modular, sample_cartesian, sample_polar_angle,
      sample_interior_projection]"


definition param_state :: "real \<Rightarrow> real \<times> rng \<Rightarrow> bool" where
  "param_state L st \<longleftrightarrow> 0 \<le> fst st \<and> fst st < 4 * L \<and> unit_draws (snd st)"


subsection \<open>Concrete draws\<close>

text \<open>A sequence of draws on which no strategy needs a retry, the draws that send
  \<open>sample_side_pos\<close> twice to the corner \<open>(0, 0)\<close>, the draws that put the two
  points of \<open>sample_parametric\<close> on either side of the corner \<open>(1, 0)\<close>, a
  sequence that alternates, and one that starts with a half.\<close>

definition example_draws :: rng where
  "example_draws = 0 ## 1 / 2 ## 1 / 4 ## 3 / 4 ## 1 / 8 ## 5 / 8 ## sconst 0"

definition corner_draws :: rng where
  "corner_draws = 0 ## 1 / 2 ## 0 ## 0 ## sconst 0"

definition around_corner_draws :: rng where
  "around_corner_draws =
     (1 / 4 - 1 / 2 ^ 43) ## (1 / 4 + 1 / 2 ^ 42) ## sconst 0"


definition half_draws :: rng where
  "half_draws = 1 / 2 ## sconst 0"

text \<open>The doubles that Python writes \<open>0.1\<close> and \<open>0.24\<close>.\<close>

definition dbl_0_1 :: real where
  "dbl_0_1 = 3602879701896397 / 2 ^ 55"

definition dbl_0_24 :: real where
  "dbl_0_24 = 1080863910568919 / 2 ^ 52"

section \<open>Notions used to state the properties of the aggregator\<close>

subsection \<open>What the strategies did\<close>

text \<open>The results of calling every strategy of the table once, in order, each on
  the state its predecessor left; the rows of such results over \<open>n\<close> trials; the
  results of \<open>n\<close> calls of one strategy.  \<open>recorded\<close> is what a trial keeps of a
  result: the distance of the pair, or \<open>None\<close> for an exception.\<close>

fun call_all ::
  "(string \<times> 's strategy) list \<Rightarrow> real \<Rightarrow> 's \<Rightarrow> (exn + point \<times> point) list \<times> 's" where
  "call_all [] L s = ([], s)"
| "call_all ((name, fn) # methods) L s =
     (case fn L s of (r, s') \<Rightarrow>
      case call_all methods L s' of (rs, s'') \<Rightarrow> (r # rs, s''))"

definition recorded :: "exn + point \<times> point \<Rightarrow> real option" where
  "recorded r = (case r of Inl e \<Rightarrow> None | Inr (p1, p2) \<Rightarrow> Some (euclidean p1 p2))"

fun outcome_rows ::
  "(string \<times> 's strategy) list \<Rightarrow> real \<Rightarrow> nat \<Rightarrow> 's
   \<Rightarrow> (exn + point \<times> point) list list \<times> 's" where
  "outcome_rows methods L 0 s = ([], s)"
| "outcome_rows methods L (Suc n) s =
     (case call_all methods L s of (row, s') \<Rightarrow>
      case outcome_rows methods L n s' of (rows, s'') \<Rightarrow> (row # rows, s''))"

fun call_many :: "'s strategy \<Rightarrow> real \<Rightarrow> nat \<Rightarrow> 's \<Rightarrow> (exn + point \<times> point) list \<times> 's" where
  "call_many fn L 0 s = ([], s)"
| "call_many fn L (Suc n) s =
     (case fn L s of (r, s') \<Rightarrow>
      case call_many fn L n s' of (rs, s'') \<Rightarrow> (r # rs, s''))"

text \<open>The distances among the entries of a row or of a method's list.\<close>

definition successes :: "real option list \<Rightarrow> real list" where
  "successes row = List.map_filter (\<lambda>d. d) row"

subsection \<open>The statistics, as the specification words them\<close>

text \<open>The square root of the population variance: the sum of the squared deviations
  from the mean, divided by the number of values, not by one less.\<close>

definition population_std :: "real list \<Rightarrow> real" where
  "population_std ds =
     (let mean = sum_list ds / real (length ds)
      in sqrt (sum_list (map (\<lambda>d. (d - mean)\<^sup>2) ds) / real (length ds)))"

definition expected_stats :: "real list \<Rightarrow> real \<Rightarrow> stats" where
  "expected_stats ds L =
     (length (filter (\<lambda>d. L < d) ds), length ds, sum_list ds / real (length ds),
      population_std ds, Min (set ds), Max (set ds))"

definition expected_summary :: "real list \<Rightarrow> real \<Rightarrow> nat \<Rightarrow> nat \<Rightarrow> summary" where
  "expected_summary ds L mw xw =
     (if ds = [] then (0, 0, 0, 0, 0, 0, 0, 0)
      else (length (filter (\<lambda>d. L < d) ds), length ds, sum_list ds / real (length ds),
            population_std ds, Min (set ds), Max (set ds), mw, xw))"

subsection \<open>Wins\<close>

text \<open>The win a strategy earns in a trial against an extremum of the row: one if it
  succeeded with a distance that \<open>math.isclose\<close> accepts, none otherwise.  \<open>credited\<close>
  is the same for the list \<open>valid\<close>.\<close>

definition win_credit :: "real option list \<Rightarrow> real \<Rightarrow> nat \<Rightarrow> nat" where
  "win_credit row ext i =
     (case row ! i of None \<Rightarrow> 0 | Some d \<Rightarrow> if isclose d ext rel_tol then 1 else 0)"

definition credited :: "(nat \<times> real) list \<Rightarrow> real \<Rightarrow> nat \<Rightarrow> nat" where
  "credited v ext j = (if \<exists>d. (j, d) \<in> set v \<and> isclose d ext rel_tol then 1 else 0)"

text \<open>The three lists of \<open>run_all\<close> have one entry per method.\<close>

definition wf_data :: "nat \<Rightarrow> run_data \<Rightarrow> bool" where
  "wf_data N data \<longleftrightarrow>
     length (distances data) = N \<and> length (min_wins data) = N \<and> length (max_wins data) = N"

subsection \<open>Concrete strategies\<close>

text \<open>A strategy that always returns two points at distance 1, one that returns two
  points at distance 2 on even states and raises on odd ones, counting its calls in the
  state, and one that always raises.\<close>

definition near_strategy :: "nat strategy" where
  "near_strategy L s = (Inr ((0, 0), (1, 0)), s)"

definition flaky_strategy :: "nat strategy" where
  "flaky_strategy L s = (if even s then Inr ((0, 0), (2, 0)) else Inl OtherError, Suc s)"

definition broken_strategy :: "nat strategy" where
  "broken_strategy L s = (Inl OtherError, s)"

definition example_methods :: "(string \<times> nat strategy) list" where
  "example_methods =
     [(''near'', near_strategy), (''flaky'', flaky_strategy), (''broken'', broken_strategy)]"

section \<open>Properties of the floating-point arithmetic\<close>

lemma pow2_powr: "pow2 e = 2 powr (of_int e)"
  by (simp only: pow2_def powr_int [of 2 e, simplified])

lemma pow2_pos: "0 < pow2 e"
  by (simp add: pow2_powr)

lemma pow2_add: "pow2 (a + b) = pow2 a * pow2 b"
  by (simp add: pow2_powr powr_add)

lemma pow2_mono: "a \<le> b \<Longrightarrow> pow2 a \<le> pow2 b"
  unfolding pow2_powr by (rule powr_mono) simp_all

lemma round_half_even_int: "round_half_even (of_int n) = n"
  by (simp add: round_half_even_def)

lemma round_half_even_err: "\<bar>of_int (round_half_even y) - y\<bar> \<le> 1 / 2"
proof -
  have "of_int \<lfloor>y\<rfloor> \<le> y" "y < of_int \<lfloor>y\<rfloor> + 1" by linarith+
  then show ?thesis
    by (auto simp: round_half_even_def Let_def)
qed

lemma float_exponent_at:
  assumes "pow2 k \<le> \<bar>x\<bar>" and "\<bar>x\<bar> < pow2 (k + 1)"
  shows "float_exponent x = max (k - 52) (- 1074)"
proof -
  have "0 < \<bar>x\<bar>" using assms(1) pow2_pos [of k] by linarith
  then have "\<lfloor>log 2 \<bar>x\<bar>\<rfloor> = k"
    using assms by (simp add: floor_log_eq_powr_iff pow2_powr)
  then show ?thesis by (simp add: float_exponent_def)
qed

lemma float_exponent_ge: "- 1074 \<le> float_exponent x"
  by (simp add: float_exponent_def)

lemma pow2_float_exponent:
  assumes "x \<noteq> 0"
  shows "pow2 (float_exponent x) \<le> max (\<bar>x\<bar> / 2 ^ 52) (pow2 (- 1074))"
proof (cases "\<lfloor>log 2 \<bar>x\<bar>\<rfloor> - 52 \<le> - 1074")
  case True
  then have "float_exponent x = - 1074" by (simp add: float_exponent_def)
  then show ?thesis by simp
next
  case False
  then have e: "float_exponent x = \<lfloor>log 2 \<bar>x\<bar>\<rfloor> - 52" by (simp add: float_exponent_def)
  have pos: "0 < \<bar>x\<bar>" using assms by simp
  have "2 powr (of_int \<lfloor>log 2 \<bar>x\<bar>\<rfloor>) \<le> 2 powr (log 2 \<bar>x\<bar>)"
    by (rule powr_mono) simp_all
  also have "\<dots> = \<bar>x\<bar>" using pos by simp
  finally have "pow2 \<lfloor>log 2 \<bar>x\<bar>\<rfloor> \<le> \<bar>x\<bar>" by (simp add: pow2_powr)
  moreover have "pow2 \<lfloor>log 2 \<bar>x\<bar>\<rfloor> = pow2 (float_exponent x) * pow2 52"
    unfolding e pow2_add [symmetric] by simp
  moreover have "pow2 52 = 2 ^ 52" by (simp add: pow2_def)
  ultimately have "pow2 (float_exponent x) * 2 ^ 52 \<le> \<bar>x\<bar>" by simp
  then have "pow2 (float_exponent x) \<le> \<bar>x\<bar> / 2 ^ 52"
    by (simp add: pos_le_divide_eq)
  then show ?thesis by simp
qed

text \<open>A multiple of the unit in the last place is not changed by rounding.\<close>

lemma fl64_exact:
  assumes "x = of_int n * pow2 e" and "float_exponent x \<le> e"
  shows "fl64 x = x"
proof (cases "x = 0")
  case True
  then show ?thesis by (simp add: fl64_def)
next
  case False
  let ?e0 = "float_exponent x"
  have "pow2 e = pow2 (e - ?e0) * pow2 ?e0"
    unfolding pow2_add [symmetric] by simp
  moreover have "pow2 (e - ?e0) = of_int (2 ^ nat (e - ?e0))"
    using assms(2) by (simp add: pow2_def)
  ultimately have x: "x = of_int (n * 2 ^ nat (e - ?e0)) * pow2 ?e0"
    using assms(1) by simp
  have "x / pow2 ?e0 = of_int (n * 2 ^ nat (e - ?e0))"
    using pow2_pos [of ?e0] by (subst x) simp
  then have "round_half_even (x / pow2 ?e0) = n * 2 ^ nat (e - ?e0)"
    by (simp only: round_half_even_int)
  then have "fl64 x = of_int (n * 2 ^ nat (e - ?e0)) * pow2 ?e0"
    using False by (simp add: fl64_def)
  with x show ?thesis by simp
qed

lemma fl64_dyadic:
  assumes "x = of_int n * pow2 e" and "\<bar>n\<bar> < 2 ^ 53" and "- 1074 \<le> e"
  shows "fl64 x = x"
proof (cases "x = 0")
  case True
  then show ?thesis by (simp add: fl64_def)
next
  case False
  have "\<bar>x\<bar> = \<bar>of_int n\<bar> * pow2 e"
    using assms(1) pow2_pos [of e] by (simp add: abs_mult)
  also have "\<dots> < 2 ^ 53 * pow2 e"
  proof (rule mult_strict_right_mono [OF _ pow2_pos])
    have "real_of_int \<bar>n\<bar> < real_of_int (2 ^ 53)"
      using assms(2) by (simp only: of_int_less_iff)
    then show "\<bar>real_of_int n\<bar> < 2 ^ 53" by simp
  qed
  also have "\<dots> = pow2 (e + 53)"
    unfolding pow2_add by (simp add: pow2_def)
  finally have up: "\<bar>x\<bar> < 2 powr (of_int (e + 53))" by (simp add: pow2_powr)
  have pos: "0 < \<bar>x\<bar>" using False by simp
  have "log 2 \<bar>x\<bar> < of_int (e + 53)"
    using up pos by (simp add: log_less_iff)
  then have "\<lfloor>log 2 \<bar>x\<bar>\<rfloor> < e + 53" by (simp add: floor_less_iff)
  then have "float_exponent x \<le> e"
    using assms(3) by (simp add: float_exponent_def)
  with assms(1) show ?thesis by (rule fl64_exact)
qed

lemma fl64_int: "\<bar>n\<bar> < 2 ^ 53 \<Longrightarrow> fl64 (of_int n) = of_int n"
  by (rule fl64_dyadic [where n = n and e = 0]) (simp_all add: pow2_def)

lemma fl64_zero: "fl64 0 = 0"
  by (simp add: fl64_def)

lemma fl64_numeral: "(numeral k :: int) < 2 ^ 53 \<Longrightarrow> fl64 (numeral k) = numeral k"
  using fl64_int [of "numeral k"] by simp

lemma fl64_neg_numeral: "(numeral k :: int) < 2 ^ 53 \<Longrightarrow> fl64 (- numeral k) = - numeral k"
  using fl64_int [of "- numeral k"] by simp

text \<open>One rounding moves a number of magnitude at most \<open>B\<close> by at most
  \<open>rounding_error B\<close>.\<close>

lemma fl64_error:
  assumes "\<bar>x\<bar> \<le> B"
  shows "\<bar>fl64 x - x\<bar> \<le> rounding_error B"
proof (cases "x = 0")
  case True
  then show ?thesis using pow2_pos [of "- 1075"] by (simp add: fl64_def rounding_error_def)
next
  case False
  let ?e0 = "float_exponent x"
  let ?y = "x / pow2 ?e0"
  have p: "0 < pow2 ?e0" by (rule pow2_pos)
  have "fl64 x - x = (of_int (round_half_even ?y) - ?y) * pow2 ?e0"
    using False p by (simp add: fl64_def algebra_simps)
  then have "\<bar>fl64 x - x\<bar> = \<bar>of_int (round_half_even ?y) - ?y\<bar> * pow2 ?e0"
    using p by (simp add: abs_mult)
  also have "\<dots> \<le> 1 / 2 * pow2 ?e0"
    by (rule mult_right_mono [OF round_half_even_err]) (simp add: p less_imp_le)
  also have "\<dots> \<le> 1 / 2 * max (\<bar>x\<bar> / 2 ^ 52) (pow2 (- 1074))"
    using pow2_float_exponent [OF False] by simp
  also have "\<dots> = max (\<bar>x\<bar> / 2 ^ 53) (pow2 (- 1075))"
    by (simp add: max_def pow2_def)
  also have "\<dots> \<le> max (B / 2 ^ 53) (pow2 (- 1075))"
    using assms by (simp add: max_def divide_right_mono)
  finally show ?thesis by (simp add: rounding_error_def)
qed

lemma fl64_zero_small:
  assumes "fl64 x = 0"
  shows "\<bar>x\<bar> \<le> pow2 (- 1075)"
proof -
  have "\<bar>x\<bar> \<le> max (\<bar>x\<bar> / 2 ^ 53) (pow2 (- 1075))"
    using fl64_error [of x "\<bar>x\<bar>"] assms by (simp add: rounding_error_def)
  moreover have "\<bar>x\<bar> \<le> \<bar>x\<bar> / 2 ^ 53 \<Longrightarrow> \<bar>x\<bar> \<le> pow2 (- 1075)"
    using pow2_pos [of "- 1075"] by (simp add: field_simps)
  ultimately show ?thesis by (auto simp: max_def split: if_splits)
qed

lemma fixed_form:
  assumes "fl64 x = x"
  shows "\<exists>n. x = of_int n * pow2 (float_exponent x)"
proof (cases "x = 0")
  case True
  then show ?thesis by (intro exI [of _ 0]) simp
next
  case False
  with assms have "x = of_int (round_half_even (x / pow2 (float_exponent x)))
                       * pow2 (float_exponent x)"
    by (simp add: fl64_def)
  then show ?thesis by blast
qed

lemma float_exponent_double:
  assumes "x \<noteq> 0"
  shows "float_exponent (2 * x) \<le> float_exponent x + 1"
proof -
  have "log 2 \<bar>2 * x\<bar> = 1 + log 2 \<bar>x\<bar>"
    using assms by (simp add: abs_mult log_mult)
  then have "\<lfloor>log 2 \<bar>2 * x\<bar>\<rfloor> = 1 + \<lfloor>log 2 \<bar>x\<bar>\<rfloor>" by simp
  then show ?thesis unfolding float_exponent_def by linarith
qed

text \<open>Doubling is exact (overflow apart).\<close>

lemma fl64_twice:
  assumes "fl64 x = x"
  shows "fl64 (2 * x) = 2 * x"
proof (cases "x = 0")
  case True
  then show ?thesis by (simp add: fl64_def)
next
  case False
  from fixed_form [OF assms] obtain n where n: "x = of_int n * pow2 (float_exponent x)" ..
  have "2 * x = of_int n * pow2 (float_exponent x + 1)"
    unfolding pow2_add using n by (simp add: pow2_def)
  then show "fl64 (2 * x) = 2 * x"
    using float_exponent_double [OF False] by (rule fl64_exact)
qed

text \<open>The least positive double is \<open>2^(-1074)\<close>.\<close>

lemma double_positive_least:
  assumes "fl64 x = x" and "0 < x"
  shows "pow2 (- 1074) \<le> x"
proof -
  from fixed_form [OF assms(1)] obtain n where n: "x = of_int n * pow2 (float_exponent x)" ..
  have "0 < of_int n * pow2 (float_exponent x)" using assms(2) n by simp
  then have "0 < n" using pow2_pos [of "float_exponent x"] by (simp add: zero_less_mult_iff)
  then have "1 \<le> real_of_int n" by simp
  then have "1 * pow2 (float_exponent x) \<le> of_int n * pow2 (float_exponent x)"
    by (rule mult_right_mono) (simp add: pow2_pos less_imp_le)
  moreover have "pow2 (- 1074) \<le> pow2 (float_exponent x)"
    by (rule pow2_mono [OF float_exponent_ge])
  ultimately show ?thesis using n by simp
qed

text \<open>Rounding, evaluated: the binade of \<open>x\<close> given, the result is the rounded
  multiple of the unit in the last place.\<close>

lemma fl64_at:
  assumes "pow2 k \<le> \<bar>x\<bar>" and "\<bar>x\<bar> < pow2 (k + 1)" and "- 1022 \<le> k"
  shows "fl64 x = of_int (round_half_even (x / pow2 (k - 52))) * pow2 (k - 52)"
proof -
  have "float_exponent x = k - 52"
    using float_exponent_at [OF assms(1,2)] assms(3) by simp
  moreover have "x \<noteq> 0" using assms(1) pow2_pos [of k] by auto
  ultimately show ?thesis by (simp add: fl64_def)
qed

lemma is_double_dyadic:
  assumes "x = of_int n * pow2 e" and "\<bar>n\<bar> < 2 ^ 53" and "- 1074 \<le> e" and "e \<le> 971"
  shows "is_double x"
proof -
  have "\<bar>x\<bar> = \<bar>of_int n\<bar> * pow2 e"
    using assms(1) pow2_pos [of e] by (simp add: abs_mult)
  also have "\<dots> < 2 ^ 53 * pow2 e"
  proof (rule mult_strict_right_mono [OF _ pow2_pos])
    have "real_of_int \<bar>n\<bar> < real_of_int (2 ^ 53)"
      using assms(2) by (simp only: of_int_less_iff)
    then show "\<bar>real_of_int n\<bar> < 2 ^ 53" by simp
  qed
  also have "\<dots> = pow2 (e + 53)"
    unfolding pow2_add by (simp add: pow2_def)
  also have "\<dots> \<le> pow2 1024"
    using assms(4) by (intro pow2_mono) simp
  finally show ?thesis
    using fl64_dyadic [OF assms(1,2,3)] by (simp add: is_double_def)
qed

lemma is_double_int: "\<bar>n\<bar> < 2 ^ 53 \<Longrightarrow> is_double (of_int n)"
  by (rule is_double_dyadic [where n = n and e = 0]) (simp_all add: pow2_def)

lemma is_double_numeral: "(numeral k :: int) < 2 ^ 53 \<Longrightarrow> is_double (numeral k)"
  using is_double_int [of "numeral k"] by simp

lemma is_double_neg_numeral: "(numeral k :: int) < 2 ^ 53 \<Longrightarrow> is_double (- numeral k)"
  using is_double_int [of "- numeral k"] by simp

lemma is_double_one: "is_double 1"
  using is_double_int [of 1] by simp

lemma below_pow2: "x < pow2 a \<Longrightarrow> a \<le> b \<Longrightarrow> x < pow2 b"
  using pow2_mono [of a b] by simp

lemma ten_below: "(10::real) < pow2 1022"
  by (rule below_pow2 [where a = 4]) (simp_all add: pow2_def)

text \<open>The products \<open>2 * L\<close> and \<open>4 * L\<close> of the code are exact; \<open>3 * L\<close> is rounded
  and stays strictly between them.\<close>

lemma fmul_2: "is_double L \<Longrightarrow> fmul 2 L = 2 * L"
  using fl64_twice [of L] by (simp add: fmul_def is_double_def)

lemma fmul_4: "is_double L \<Longrightarrow> fmul 4 L = 4 * L"
  using fl64_twice [OF fl64_twice [of L]] by (simp add: fmul_def is_double_def)

lemma fsub_self: "fsub a a = 0"
  by (simp add: fsub_def fl64_zero)

lemma fsub_zero: "is_double a \<Longrightarrow> fsub a 0 = a"
  by (simp add: fsub_def is_double_def)

lemma rounding_error_side:
  assumes "is_double L" and "0 < L"
  shows "0 < rounding_error (4 * L)" and "rounding_error (4 * L) \<le> L / 2"
proof -
  have least: "pow2 (- 1074) \<le> L"
    using assms by (intro double_positive_least) (simp_all add: is_double_def)
  have "pow2 (- 1074) = 2 * pow2 (- 1075)" by (simp add: pow2_def)
  with least have "pow2 (- 1075) \<le> L / 2" by simp
  moreover have "4 * L / 2 ^ 53 \<le> L / 2" using assms(2) by simp
  ultimately show "rounding_error (4 * L) \<le> L / 2"
    by (simp add: rounding_error_def)
  show "0 < rounding_error (4 * L)"
    using pow2_pos [of "- 1075"] by (simp add: rounding_error_def max_def)
qed

lemma fmul_3_error:
  assumes "0 < L"
  shows "\<bar>fmul 3 L - 3 * L\<bar> \<le> rounding_error (4 * L)"
  unfolding fmul_def using assms by (intro fl64_error) simp

lemma fmul_3_bounds:
  assumes "is_double L" and "0 < L"
  shows "2 * L < fmul 3 L" and "fmul 3 L < 4 * L"
  using fmul_3_error [OF assms(2)] rounding_error_side(2) [OF assms] assms(2)
  by (simp_all add: abs_le_iff)

text \<open>The doubles of the examples.\<close>

lemma is_double_dbl_0_1: "is_double dbl_0_1"
  by (rule is_double_dyadic [where n = 3602879701896397 and e = "- 55"])
    (simp_all add: dbl_0_1_def pow2_def)

lemma is_double_dbl_0_24: "is_double dbl_0_24"
  by (rule is_double_dyadic [where n = 1080863910568919 and e = "- 52"])
    (simp_all add: dbl_0_24_def pow2_def)

lemma dbl_0_1_below: "dbl_0_1 < pow2 1022"
  by (rule below_pow2 [where a = 0]) (simp_all add: pow2_def dbl_0_1_def)

text \<open>\<open>3 * 0.1\<close> is \<open>0.30000000000000004\<close>: the product lies halfway between two
  doubles and is rounded to the even one, upwards.\<close>

lemma fmul_3_dbl_0_1: "fmul 3 dbl_0_1 = 1351079888211149 / 2 ^ 52"
proof -
  have "fl64 (3 * dbl_0_1)
      = of_int (round_half_even (3 * dbl_0_1 / pow2 (- 2 - 52))) * pow2 (- 2 - 52)"
    by (rule fl64_at) (simp_all add: dbl_0_1_def pow2_def)
  also have "3 * dbl_0_1 / pow2 (- 2 - 52) = 10808639105689191 / 2"
    by (simp add: dbl_0_1_def pow2_def)
  also have "round_half_even (10808639105689191 / 2) = 5404319552844596"
    by (simp add: round_half_even_def Let_def)
  finally show ?thesis by (simp add: fmul_def pow2_def)
qed

text \<open>\<open>0.1 + 4.0\<close> is \<open>4.1\<close>, the double \<open>2308094809027379 / 2^49\<close>, which is
  less than the sum.\<close>

lemma fadd_dbl_0_1_4: "fadd dbl_0_1 4 = 2308094809027379 / 2 ^ 49"
proof -
  have "fl64 (dbl_0_1 + 4)
      = of_int (round_half_even ((dbl_0_1 + 4) / pow2 (2 - 52))) * pow2 (2 - 52)"
    by (rule fl64_at) (simp_all add: dbl_0_1_def pow2_def)
  also have "(dbl_0_1 + 4) / pow2 (2 - 52) = 147718067777752269 / 32"
    by (simp add: dbl_0_1_def pow2_def)
  also have "round_half_even (147718067777752269 / 32) = 4616189618054758"
    by (simp add: round_half_even_def Let_def)
  finally show ?thesis by (simp add: fadd_def pow2_def)
qed

section \<open>Properties of the geometry primitives\<close>

lemma c_fmod_small:
  assumes "0 \<le> t" and "t < m"
  shows "c_fmod t m = t"
proof -
  have "0 < m" using assms by simp
  then have "0 \<le> t / m" "t / m < 1" using assms by simp_all
  then have "\<lfloor>t / m\<rfloor> = 0" by (simp add: floor_eq_iff)
  then show ?thesis using \<open>0 \<le> t / m\<close> by (simp add: c_fmod_def c_trunc_def)
qed

lemma py_fmod_small:
  assumes "0 \<le> t" and "t < m"
  shows "py_fmod t m = Inr t"
  using assms c_fmod_small [OF assms] by (auto simp: py_fmod_def Let_def)

lemma c_fmod_nonneg:
  assumes "0 < m" and "0 \<le> t"
  shows "0 \<le> c_fmod t m" and "c_fmod t m < m" and "c_fmod (t + m) m = c_fmod t m"
proof -
  let ?q = "of_int \<lfloor>t / m\<rfloor> :: real"
  have t: "0 \<le> t / m" using assms by simp
  have "?q \<le> t / m" by (rule of_int_floor_le)
  then have 1: "?q * m \<le> t" using pos_le_divide_eq [OF assms(1), of ?q t] by blast
  have "t / m < ?q + 1" using floor_correct [of "t / m"] by simp
  then have 2: "t < (?q + 1) * m" using pos_divide_less_eq [OF assms(1), of t "?q + 1"] by blast
  from 1 2 t show "0 \<le> c_fmod t m" and "c_fmod t m < m"
    by (simp_all add: c_fmod_def c_trunc_def algebra_simps)
  have "(t + m) / m = t / m + 1" using assms(1) by (simp add: add_divide_distrib)
  then have "\<lfloor>(t + m) / m\<rfloor> = \<lfloor>t / m\<rfloor> + 1" by simp
  moreover have "0 \<le> (t + m) / m" using assms by simp
  ultimately show "c_fmod (t + m) m = c_fmod t m"
    using t by (simp add: c_fmod_def c_trunc_def algebra_simps)
qed

lemma c_fmod_negative:
  assumes "0 < m" and "t + m < 0"
  shows "c_fmod (t + m) m = c_fmod t m"
proof -
  have "(t + m) / m = t / m + 1" using assms(1) by (simp add: add_divide_distrib)
  then have "\<lceil>(t + m) / m\<rceil> = \<lceil>t / m\<rceil> + 1" by simp
  moreover have "(t + m) / m < 0" "t / m < 0"
    using assms by (simp_all add: divide_neg_pos)
  ultimately show ?thesis
    by (simp add: c_fmod_def c_trunc_def algebra_simps)
qed

text \<open>The remainder is unchanged by a shift of the dividend by the divisor, when the
  shifted dividend is a double.\<close>

lemma py_fmod_shift:
  assumes "0 < m" and "fl64 (t + m) = t + m"
  shows "py_fmod (t + m) m = py_fmod t m"
proof -
  consider "0 \<le> t" | "t + m < 0" | "t = - m" | "- m < t" "t < 0" by linarith
  then show ?thesis
  proof cases
    case 1
    then show ?thesis using c_fmod_nonneg(3) [OF assms(1)] by (simp add: py_fmod_def)
  next
    case 2
    then show ?thesis using c_fmod_negative [OF assms(1)] by (simp add: py_fmod_def)
  next
    case 3
    have "c_fmod (- m) m = 0" using assms(1) by (simp add: c_fmod_def c_trunc_def)
    moreover have "c_fmod 0 m = 0" by (simp add: c_fmod_def c_trunc_def)
    ultimately show ?thesis using 3 assms(1) by (simp add: py_fmod_def)
  next
    case 4
    have "- 1 < t / m" "t / m < 0"
      using 4 assms(1) by (simp_all add: pos_less_divide_eq divide_neg_pos)
    then have "\<lceil>t / m\<rceil> = 0" by (simp add: ceiling_eq_iff)
    then have a: "c_fmod t m = t" using \<open>t / m < 0\<close> by (simp add: c_fmod_def c_trunc_def)
    have b: "c_fmod (t + m) m = t + m"
      using 4 by (intro c_fmod_small) simp_all
    show ?thesis
      using a b 4 assms by (simp add: py_fmod_def Let_def fadd_def)
  qed
qed

lemma perimeter_to_xy_corners:
  assumes "0 < L" and "is_double L"
  shows "perimeter_to_xy 0 L = Inr (0, 0)"
    and "perimeter_to_xy L L = Inr (L, 0)"
    and "perimeter_to_xy (fmul 2 L) L = Inr (L, L)"
    and "perimeter_to_xy (fmul 3 L) L = Inr (0, L)"
proof -
  note f = fmul_2 [OF assms(2)] fmul_4 [OF assms(2)]
  note b = fmul_3_bounds [OF assms(2,1)]
  show "perimeter_to_xy 0 L = Inr (0, 0)"
    using assms(1) by (simp add: perimeter_to_xy_def f py_fmod_small)
  show "perimeter_to_xy L L = Inr (L, 0)"
    using assms(1) by (simp add: perimeter_to_xy_def f py_fmod_small fsub_self)
  show "perimeter_to_xy (fmul 2 L) L = Inr (L, L)"
    using assms b by (simp add: perimeter_to_xy_def f py_fmod_small fsub_self fsub_zero)
  have "py_fmod (fmul 3 L) (4 * L) = Inr (fmul 3 L)"
    using assms(1) b by (intro py_fmod_small) simp_all
  then show "perimeter_to_xy (fmul 3 L) L = Inr (0, L)"
    using assms b by (simp add: perimeter_to_xy_def f fsub_self fsub_zero)
qed

text \<open>
  Claim C7, as stated, at \<open>L = 1.0\<close> and \<open>t = 0.1\<close>: the sum \<open>t + 4 * L\<close> is rounded to
  the double \<open>4.1\<close>, which is less than the sum, and the parametrization returns
  \<open>(0.09999999999999964, 0)\<close> for it, and \<open>(0.1, 0)\<close> for \<open>t\<close>.
\<close>

theorem perimeter_to_xy_rounded_shift_differs:
  "(0::real) < 1 \<and> is_double 1 \<and> is_double dbl_0_1
   \<and> perimeter_to_xy dbl_0_1 1 = Inr (dbl_0_1, 0)
   \<and> perimeter_to_xy (fadd dbl_0_1 (fmul 4 1)) 1 = Inr (56294995342131 / 2 ^ 49, 0)
   \<and> perimeter_to_xy (fadd dbl_0_1 (fmul 4 1)) 1 \<noteq> perimeter_to_xy dbl_0_1 1"
proof -
  have f4: "fmul 4 1 = 4" by (simp add: fmul_def fl64_numeral)
  have a: "perimeter_to_xy dbl_0_1 1 = Inr (dbl_0_1, 0)"
  proof -
    have "py_fmod dbl_0_1 4 = Inr dbl_0_1"
      by (rule py_fmod_small) (simp_all add: dbl_0_1_def)
    then show ?thesis by (simp add: perimeter_to_xy_def f4) (simp add: dbl_0_1_def)
  qed
  have "\<lfloor>(2308094809027379 / 2 ^ 49 :: real) / 4\<rfloor> = 1"
    by (simp add: floor_eq_iff)
  then have "c_fmod (2308094809027379 / 2 ^ 49) 4 = 56294995342131 / 2 ^ 49"
    by (simp add: c_fmod_def c_trunc_def)
  then have "py_fmod (2308094809027379 / 2 ^ 49) 4 = Inr (56294995342131 / 2 ^ 49)"
    by (simp add: py_fmod_def)
  then have b: "perimeter_to_xy (fadd dbl_0_1 (fmul 4 1)) 1
                  = Inr (56294995342131 / 2 ^ 49, 0)"
    by (simp add: perimeter_to_xy_def f4 fadd_dbl_0_1_4)
  have "(56294995342131 / 2 ^ 49 :: real) \<noteq> dbl_0_1"
    by (simp add: dbl_0_1_def)
  with a b is_double_one is_double_dbl_0_1 show ?thesis by simp
qed

text \<open>
  Claim C7, amended.  For every side length \<open>L > 0\<close> that is a double below \<open>2^1022\<close>:
  \<open>_perimeter_to_xy(t + 4 * L, L)\<close> equals \<open>_perimeter_to_xy(t, L)\<close> for every \<open>t\<close>
  whose sum \<open>t + 4L\<close> is itself a double, so that the addition \<open>t + 4 * L\<close> does not
  round; and the parametrization is exact at the four interval boundaries: \<open>0\<close>,
  \<open>L\<close>, \<open>2 * L\<close> and \<open>3 * L\<close> (the rounded product) are mapped to the corners
  \<open>(0, 0)\<close>, \<open>(L, 0)\<close>, \<open>(L, L)\<close> and \<open>(0, L)\<close>.
\<close>

theorem perimeter_to_xy_exact_shift_and_corners:
  assumes "0 < L" and "is_double L" and "L < pow2 1022" and "is_double (t + 4 * L)"
  shows "perimeter_to_xy (fadd t (fmul 4 L)) L = perimeter_to_xy t L
       \<and> perimeter_to_xy 0 L = Inr (0, 0)
       \<and> perimeter_to_xy L L = Inr (L, 0)
       \<and> perimeter_to_xy (fmul 2 L) L = Inr (L, L)
       \<and> perimeter_to_xy (fmul 3 L) L = Inr (0, L)"
proof -
  have f4: "fmul 4 L = 4 * L" by (rule fmul_4 [OF assms(2)])
  have e: "fl64 (t + 4 * L) = t + 4 * L" using assms(4) by (simp add: is_double_def)
  have "py_fmod (t + 4 * L) (4 * L) = py_fmod t (4 * L)"
    using assms(1) e by (intro py_fmod_shift) simp_all
  then have "perimeter_to_xy (fadd t (fmul 4 L)) L = perimeter_to_xy t L"
    by (simp add: perimeter_to_xy_def f4 fadd_def e)
  with perimeter_to_xy_corners [OF assms(1,2)] show ?thesis by simp
qed

theorem perimeter_to_xy_exact_shift_and_corners_witness:
  "(0::real) < 10 \<and> is_double 10 \<and> (10::real) < pow2 1022 \<and> is_double (- 45 + 4 * 10)
   \<and> perimeter_to_xy (fadd (- 45) (fmul 4 10)) 10 = perimeter_to_xy (- 45) 10
   \<and> perimeter_to_xy 0 10 = Inr (0, 0)
   \<and> perimeter_to_xy 10 10 = Inr (10, 0)
   \<and> perimeter_to_xy (fmul 2 10) 10 = Inr (10, 10)
   \<and> perimeter_to_xy (fmul 3 10) 10 = Inr (0, 10)"
  using perimeter_to_xy_exact_shift_and_corners [of 10 "- 45"] ten_below
  by (simp add: is_double_numeral is_double_neg_numeral)

text \<open>
  Claim C9.  \<open>side_of\<close> answers \<open>corner\<close> whenever the point is within the tolerance of
  at least two of the four side lines, the label of the side when it is within the
  tolerance of exactly one, and \<open>off\<close> when it is within the tolerance of none.
\<close>

theorem side_of_classification:
  "(2 \<le> near_count p L tol \<longrightarrow> side_of p L tol = ''corner'')
   \<and> (near_count p L tol = 1 \<and> \<bar>snd p\<bar> < tol \<longrightarrow> side_of p L tol = ''bottom'')
   \<and> (near_count p L tol = 1 \<and> \<bar>snd p - L\<bar> < tol \<longrightarrow> side_of p L tol = ''top'')
   \<and> (near_count p L tol = 1 \<and> \<bar>fst p\<bar> < tol \<longrightarrow> side_of p L tol = ''left'')
   \<and> (near_count p L tol = 1 \<and> \<bar>fst p - L\<bar> < tol \<longrightarrow> side_of p L tol = ''right'')
   \<and> (near_count p L tol = 0 \<longrightarrow> side_of p L tol = ''off'')"
  by (cases p) (simp add: side_of_def near_count_def near_sides_def)

theorem side_of_classification_witness:
  "side_of (0, 0) 10 tol9 = ''corner''
   \<and> side_of (5, 0) 10 tol9 = ''bottom''
   \<and> side_of (5, 10) 10 tol9 = ''top''
   \<and> side_of (0, 5) 10 tol9 = ''left''
   \<and> side_of (10, 5) 10 tol9 = ''right''
   \<and> side_of (5, 5) 10 tol9 = ''off''"
  using side_of_classification [of "(0, 0)" 10 tol9]
    side_of_classification [of "(5, 0)" 10 tol9]
    side_of_classification [of "(5, 10)" 10 tol9]
    side_of_classification [of "(0, 5)" 10 tol9]
    side_of_classification [of "(10, 5)" 10 tol9]
    side_of_classification [of "(5, 5)" 10 tol9]
  by (simp add: near_count_def near_sides_def tol9_def)

lemma retry_while_exits_at:
  "\<not> retry (fst ((redraw_step redraw ^^ k) (b, s))) \<Longrightarrow>
   \<exists>j \<le> k. retry_while retry redraw b s = Some ((redraw_step redraw ^^ j) (b, s))"
proof (induction k arbitrary: b s)
  case 0
  then show ?case by (simp add: retry_while.simps)
next
  case (Suc k)
  show ?case
  proof (cases "retry b")
    case False
    then have "retry_while retry redraw b s = Some ((redraw_step redraw ^^ 0) (b, s))"
      by (simp add: retry_while.simps)
    then show ?thesis by blast
  next
    case True
    obtain b' s' where r: "redraw s = (b', s')" by (cases "redraw s")
    have step: "redraw_step redraw (b, s) = (b', s')"
      by (simp add: redraw_step_def r)
    from Suc.prems have "\<not> retry (fst ((redraw_step redraw ^^ k) (b', s')))"
      by (simp add: funpow_swap1 step)
    from Suc.IH [OF this] obtain j where j: "j \<le> k"
      "retry_while retry redraw b' s' = Some ((redraw_step redraw ^^ j) (b', s'))" by blast
    have "retry_while retry redraw b s = retry_while retry redraw b' s'"
      using True r by (subst retry_while.simps) simp
    with j have "retry_while retry redraw b s = Some ((redraw_step redraw ^^ Suc j) (b, s))"
      by (simp add: funpow_swap1 step)
    with j(1) show ?thesis by (metis Suc_le_mono)
  qed
qed

lemma retry_while_Some_iter:
  assumes "retry_while retry redraw b s = Some r"
  shows "\<exists>k. r = (redraw_step redraw ^^ k) (b, s) \<and> \<not> retry (fst r)"
proof (rule retry_while.raw_induct
    [where P = "\<lambda>retry redraw b s r. \<exists>k. r = (redraw_step redraw ^^ k) (b, s) \<and> \<not> retry (fst r)",
      OF _ assms])
  fix f :: "('a \<Rightarrow> bool) \<Rightarrow> (rng \<Rightarrow> 'a \<times> rng) \<Rightarrow> 'a \<Rightarrow> rng \<Rightarrow> ('a \<times> rng) option"
  fix rt rd b s r
  assume IH: "\<And>rt rd b s r. f rt rd b s = Some r \<Longrightarrow>
                \<exists>k. r = (redraw_step rd ^^ k) (b, s) \<and> \<not> rt (fst r)"
    and eq: "(if rt b then case rd s of (b', s') \<Rightarrow> f rt rd b' s' else Some (b, s)) = Some r"
  show "\<exists>k. r = (redraw_step rd ^^ k) (b, s) \<and> \<not> rt (fst r)"
  proof (cases "rt b")
    case False
    with eq have "r = (redraw_step rd ^^ 0) (b, s)" by simp
    moreover from this False have "\<not> rt (fst r)" by simp
    ultimately show ?thesis by blast
  next
    case True
    obtain b' s' where rd: "rd s = (b', s')" by (cases "rd s")
    with True eq have "f rt rd b' s' = Some r" by simp
    from IH [OF this] obtain k where
      k: "r = (redraw_step rd ^^ k) (b', s')" "\<not> rt (fst r)" by blast
    have "r = (redraw_step rd ^^ Suc k) (b, s)"
      using k(1) by (simp add: funpow_swap1 redraw_step_def rd)
    with k(2) show ?thesis by blast
  qed
qed

lemma retry_while_returns_iff:
  "(\<exists>r. retry_while retry redraw b s = Some r) \<longleftrightarrow> loop_exits retry redraw b s"
proof
  assume "\<exists>r. retry_while retry redraw b s = Some r"
  then obtain r where "retry_while retry redraw b s = Some r" ..
  from retry_while_Some_iter [OF this] show "loop_exits retry redraw b s"
    unfolding loop_exits_def by auto
next
  assume "loop_exits retry redraw b s"
  then obtain k where "\<not> retry (fst ((redraw_step redraw ^^ k) (b, s)))"
    unfolding loop_exits_def ..
  from retry_while_exits_at [where retry = retry and redraw = redraw and k = k and b = b and s = s] this
  show "\<exists>r. retry_while retry redraw b s = Some r"
    by blast
qed

lemma retry_while_None_iff:
  "retry_while retry redraw b s = None \<longleftrightarrow> \<not> loop_exits retry redraw b s"
  using retry_while_returns_iff [of retry redraw b s] by (cases "retry_while retry redraw b s") auto

lemma retry_while_invariant:
  assumes "retry_while retry redraw b s = Some (b', s')"
    and "P (b, s)"
    and "\<And>st. P st \<Longrightarrow> P (redraw (snd st))"
  shows "P (b', s') \<and> \<not> retry b'"
proof -
  from retry_while_Some_iter [OF assms(1)] obtain k where
    k: "(b', s') = (redraw_step redraw ^^ k) (b, s)" "\<not> retry b'" by auto
  have "P ((redraw_step redraw ^^ k) (b, s))"
    by (induction k) (simp_all add: assms(2) assms(3) redraw_step_def)
  with k show ?thesis by simp
qed

lemma unit_draws_shd: "unit_draws s \<Longrightarrow> 0 \<le> shd s \<and> shd s < 1"
  by (simp add: unit_draws_def shd_sset)

lemma unit_draws_stl: "unit_draws s \<Longrightarrow> unit_draws (stl s)"
  by (auto simp: unit_draws_def dest: stl_sset)

lemma uniform_range:
  assumes "unit_draws s" and "0 \<le> b"
  shows "0 \<le> fst (uniform 0 b s) \<and> fst (uniform 0 b s) \<le> b \<and> unit_draws (snd (uniform 0 b s))"
proof -
  from unit_draws_shd [OF assms(1)] have u: "0 \<le> shd s" "shd s \<le> 1" by simp_all
  have "b * shd s \<le> b * 1" using u assms(2) by (intro mult_left_mono) simp_all
  then show ?thesis
    using u assms unit_draws_stl [OF assms(1)] by (simp add: uniform_def)
qed
















lemma uniform_less:
  assumes "unit_draws s" and "0 < b"
  shows "fst (uniform 0 b s) < b"
proof -
  from unit_draws_shd [OF assms(1)] have "shd s < 1" by simp
  then have "b * shd s < b * 1" using assms(2) by (intro mult_strict_left_mono) simp_all
  then show ?thesis by (simp add: uniform_def)
qed

text \<open>
  The two mappings of a parameter \<open>t\<close> in \<open>[0, 4L)\<close> to a point.  Both give a point
  with one coordinate exactly \<open>0\<close> or \<open>L\<close> and the other within the slack of
  \<open>[0, L]\<close>.  They are the same expression on the bottom and on the right side; on the
  top and on the left side they round different intermediate values, and the two
  results lie within the slack of each other.
\<close>

lemma parametric_mappings:
  assumes "0 < L" and "is_double L" and "0 \<le> t" and "t < 4 * L"
  shows "near_point L (point_parametric L t)"
    and "\<exists>q. perimeter_to_xy t L = Inr q \<and> near_point L q
           \<and> close_within (slack L) q (point_parametric L t)
           \<and> (t < 2 * L \<longrightarrow> q = point_parametric L t)
           \<and> (2 * L \<le> t \<and> t < fmul 3 L \<longrightarrow> snd q = L \<and> snd (point_parametric L t) = L)
           \<and> (fmul 3 L \<le> t \<longrightarrow> fst q = 0 \<and> fst (point_parametric L t) = 0)"
proof -
  define E where "E = rounding_error (4 * L)"
  define f3 where "f3 = fmul 3 L"
  have E: "0 < E" "E \<le> L / 2"
    using rounding_error_side [OF assms(2,1)] by (simp_all add: E_def)
  have s: "slack L = 4 * E" by (simp add: slack_def E_def)
  have f2: "fmul 2 L = 2 * L" by (rule fmul_2 [OF assms(2)])
  have f4: "fmul 4 L = 4 * L" by (rule fmul_4 [OF assms(2)])
  have f3: "f3 - 3 * L \<le> E" "3 * L - f3 \<le> E"
    using fmul_3_error [OF assms(1)] by (simp_all add: E_def f3_def abs_le_iff)
  have r: "fl64 v - v \<le> E \<and> v - fl64 v \<le> E" if "\<bar>v\<bar> \<le> 4 * L" for v
    using fl64_error [OF that] by (simp add: E_def abs_le_iff)
  have m: "py_fmod t (4 * L) = Inr t"
    using assms(3,4) by (rule py_fmod_small)
  consider (bottom) "t < L" | (right) "L \<le> t" "t < 2 * L"
    | (top) "2 * L \<le> t" "t < f3" | (left) "f3 \<le> t"
    by linarith
  then have "near_point L (point_parametric L t)
    \<and> (\<exists>q. perimeter_to_xy t L = Inr q \<and> near_point L q
           \<and> close_within (slack L) q (point_parametric L t)
           \<and> (t < 2 * L \<longrightarrow> q = point_parametric L t)
           \<and> (2 * L \<le> t \<and> t < f3 \<longrightarrow> snd q = L \<and> snd (point_parametric L t) = L)
           \<and> (f3 \<le> t \<longrightarrow> fst q = 0 \<and> fst (point_parametric L t) = 0))"
  proof cases
    case bottom
    have p: "point_parametric L t = (t, 0)"
      using bottom by (simp add: point_parametric_def)
    have q: "perimeter_to_xy t L = Inr (t, 0)"
      using bottom by (simp add: perimeter_to_xy_def f4 m)
    have n: "near_point L (t, 0)"
      using bottom assms(3) E by (simp add: near_point_def pinned_def near_square_def s)
    have l: "t < 2 * L" "\<not> f3 \<le> t" using bottom assms(1) f3 E by simp_all
    show ?thesis
      using n l E by (simp add: p q close_within_def s)
  next
    case right
    have p: "point_parametric L t = (L, fsub t L)"
      using right by (simp add: point_parametric_def f2)
    have q: "perimeter_to_xy t L = Inr (L, fsub t L)"
      using right by (simp add: perimeter_to_xy_def f4 f2 m)
    have "\<bar>t - L\<bar> \<le> 4 * L" using right by simp
    from r [OF this] have n: "near_point L (L, fsub t L)"
      using right E assms(1)
      by (simp add: near_point_def pinned_def near_square_def s fsub_def)
    have l: "\<not> f3 \<le> t" using right f3 E by simp
    show ?thesis
      using n l right E by (simp add: p q close_within_def s)
  next
    case top
    have p: "point_parametric L t = (fsub f3 t, L)"
      using top assms(1) by (simp add: point_parametric_def f2 f3_def)
    have q: "perimeter_to_xy t L = Inr (fsub L (fsub t (2 * L)), L)"
      using top assms(1) by (simp add: perimeter_to_xy_def f4 f2 m f3_def)
    have "\<bar>f3 - t\<bar> \<le> 4 * L" using top f3 E by simp
    from r [OF this] have e1: "fsub f3 t - (f3 - t) \<le> E" "(f3 - t) - fsub f3 t \<le> E"
      by (simp_all add: fsub_def)
    have "\<bar>t - 2 * L\<bar> \<le> 4 * L" using top f3 E by simp
    from r [OF this] have e2: "fsub t (2 * L) - (t - 2 * L) \<le> E"
      "(t - 2 * L) - fsub t (2 * L) \<le> E"
      by (simp_all add: fsub_def)
    have "\<bar>L - fsub t (2 * L)\<bar> \<le> 4 * L" using top f3 E e2 by (simp add: abs_le_iff)
    from r [OF this] have e3: "fsub L (fsub t (2 * L)) - (L - fsub t (2 * L)) \<le> E"
      "(L - fsub t (2 * L)) - fsub L (fsub t (2 * L)) \<le> E"
      by (simp_all add: fsub_def [of L])
    have n1: "near_point L (fsub f3 t, L)"
      using top f3 E e1 by (simp add: near_point_def pinned_def near_square_def s)
    have n2: "near_point L (fsub L (fsub t (2 * L)), L)"
      using top f3 E e2 e3 by (simp add: near_point_def pinned_def near_square_def s)
    have c: "close_within (4 * E) (fsub L (fsub t (2 * L)), L) (fsub f3 t, L)"
      using f3 E e1 e2 e3 by (simp add: close_within_def abs_le_iff)
    show ?thesis
      using n1 n2 c top by (simp add: p q s)
  next
    case left
    have l: "\<not> t < L" "\<not> t < 2 * L" "\<not> t < f3" using left f3 E assms(1) by simp_all
    have p: "point_parametric L t = (0, fsub (4 * L) t)"
      using l by (simp add: point_parametric_def f2 f4 f3_def)
    have q: "perimeter_to_xy t L = Inr (0, fsub L (fsub t f3))"
      using l by (simp add: perimeter_to_xy_def f4 f2 m f3_def)
    have "\<bar>4 * L - t\<bar> \<le> 4 * L" using assms(3,4) by simp
    from r [OF this] have e1: "fsub (4 * L) t - (4 * L - t) \<le> E"
      "(4 * L - t) - fsub (4 * L) t \<le> E"
      by (simp_all add: fsub_def)
    have "\<bar>t - f3\<bar> \<le> 4 * L" using left assms(4) f3 E by simp
    from r [OF this] have e2: "fsub t f3 - (t - f3) \<le> E" "(t - f3) - fsub t f3 \<le> E"
      by (simp_all add: fsub_def)
    have "\<bar>L - fsub t f3\<bar> \<le> 4 * L" using left assms(4) f3 E e2 by (simp add: abs_le_iff)
    from r [OF this] have e3: "fsub L (fsub t f3) - (L - fsub t f3) \<le> E"
      "(L - fsub t f3) - fsub L (fsub t f3) \<le> E"
      by (simp_all add: fsub_def [of L])
    have n1: "near_point L (0, fsub (4 * L) t)"
      using left assms(4) f3 E e1 by (simp add: near_point_def pinned_def near_square_def s)
    have n2: "near_point L (0, fsub L (fsub t f3))"
      using left assms(4) f3 E e2 e3
      by (simp add: near_point_def pinned_def near_square_def s)
    have c: "close_within (4 * E) (0, fsub L (fsub t f3)) (0, fsub (4 * L) t)"
      using f3 E e1 e2 e3 by (simp add: close_within_def abs_le_iff)
    show ?thesis
      using n1 n2 c l left by (simp add: p q s)
  qed
  then show "near_point L (point_parametric L t)"
    and "\<exists>q. perimeter_to_xy t L = Inr q \<and> near_point L q
           \<and> close_within (slack L) q (point_parametric L t)
           \<and> (t < 2 * L \<longrightarrow> q = point_parametric L t)
           \<and> (2 * L \<le> t \<and> t < fmul 3 L \<longrightarrow> snd q = L \<and> snd (point_parametric L t) = L)
           \<and> (fmul 3 L \<le> t \<longrightarrow> fst q = 0 \<and> fst (point_parametric L t) = 0)"
    unfolding f3_def by blast+
qed

lemma uniform_param_state:
  assumes "0 < L" and "unit_draws s"
  shows "param_state L (uniform 0 (4 * L) s)"
  using uniform_range [OF assms(2), of "4 * L"] uniform_less [OF assms(2), of "4 * L"] assms(1)
  by (simp add: param_state_def)

text \<open>Strategies 1 and 6 run the same loop on the same draws.\<close>

lemma parametric_loop:
  assumes "0 < L" and "is_double L" and "unit_draws s"
  shows "\<exists>t1 s1 t2 s2.
           uniform 0 (fmul 4 L) s = (t1, s1) \<and> uniform 0 (fmul 4 L) s1 = (t2, s2)
         \<and> 0 \<le> t1 \<and> t1 < 4 * L
         \<and> (if parametric_exits L s
            then \<exists>t2' s3. retry_while (\<lambda>t2. \<bar>t1 - t2\<bar> < tol12) (uniform 0 (fmul 4 L)) t2 s2
                            = Some (t2', s3) \<and> 0 \<le> t2' \<and> t2' < 4 * L
            else retry_while (\<lambda>t2. \<bar>t1 - t2\<bar> < tol12) (uniform 0 (fmul 4 L)) t2 s2 = None)"
proof -
  have f4: "fmul 4 L = 4 * L" by (rule fmul_4 [OF assms(2)])
  obtain t1 s1 where d1: "uniform 0 (4 * L) s = (t1, s1)" by (cases "uniform 0 (4 * L) s")
  obtain t2 s2 where d2: "uniform 0 (4 * L) s1 = (t2, s2)" by (cases "uniform 0 (4 * L) s1")
  from uniform_param_state [OF assms(1,3)] d1 have g1: "0 \<le> t1" "t1 < 4 * L" "unit_draws s1"
    by (simp_all add: param_state_def)
  from uniform_param_state [OF assms(1) g1(3)] d2 have g2: "param_state L (t2, s2)" by simp
  let ?retry = "\<lambda>t2. \<bar>t1 - t2\<bar> < tol12"
  have e: "parametric_exits L s = loop_exits ?retry (uniform 0 (4 * L)) t2 s2"
    by (simp add: parametric_exits_def f4 d1 d2)
  show ?thesis
  proof (cases "loop_exits ?retry (uniform 0 (4 * L)) t2 s2")
    case True
    then obtain t2' s3 where r: "retry_while ?retry (uniform 0 (4 * L)) t2 s2 = Some (t2', s3)"
      using retry_while_returns_iff [of ?retry "uniform 0 (4 * L)" t2 s2] by auto
    have "param_state L (t2', s3) \<and> \<not> ?retry t2'"
      by (rule retry_while_invariant [where P = "param_state L", OF r g2])
        (rule uniform_param_state [OF assms(1)], simp add: param_state_def)
    then have "0 \<le> t2'" "t2' < 4 * L" by (simp_all add: param_state_def)
    with True r g1 show ?thesis
      by (simp add: e f4 d1 d2)
  next
    case False
    then have "retry_while ?retry (uniform 0 (4 * L)) t2 s2 = None"
      by (simp add: retry_while_None_iff)
    with False g1 show ?thesis
      by (simp add: e f4 d1 d2)
  qed
qed


lemma sample_parametric_modular_total:
  assumes "0 < L" and "is_double L" and "unit_draws s"
  shows "(if parametric_exits L s
          then returns_near_perimeter (sample_parametric_modular L s) L
          else sample_parametric_modular L s = None)
       \<and> results_close (slack L) (sample_parametric_modular L s) (sample_parametric L s)"
proof -
  from parametric_loop [OF assms] obtain t1 s1 t2 s2 where
    d: "uniform 0 (fmul 4 L) s = (t1, s1)" "uniform 0 (fmul 4 L) s1 = (t2, s2)"
    and g1: "0 \<le> t1" "t1 < 4 * L"
    and l: "if parametric_exits L s
            then \<exists>t2' s3. retry_while (\<lambda>t2. \<bar>t1 - t2\<bar> < tol12) (uniform 0 (fmul 4 L)) t2 s2
                            = Some (t2', s3) \<and> 0 \<le> t2' \<and> t2' < 4 * L
            else retry_while (\<lambda>t2. \<bar>t1 - t2\<bar> < tol12) (uniform 0 (fmul 4 L)) t2 s2 = None"
    by blast
  show ?thesis
  proof (cases "parametric_exits L s")
    case True
    with l obtain t2' s3 where
      r: "retry_while (\<lambda>t2. \<bar>t1 - t2\<bar> < tol12) (uniform 0 (fmul 4 L)) t2 s2 = Some (t2', s3)"
      and g2: "0 \<le> t2'" "t2' < 4 * L" by auto
    from parametric_mappings(2) [OF assms(1,2) g1] obtain q1 where
      q1: "perimeter_to_xy t1 L = Inr q1" "near_point L q1"
        "close_within (slack L) q1 (point_parametric L t1)" by blast
    from parametric_mappings(2) [OF assms(1,2) g2] obtain q2 where
      q2: "perimeter_to_xy t2' L = Inr q2" "near_point L q2"
        "close_within (slack L) q2 (point_parametric L t2')" by blast
    show ?thesis
      using True q1 q2
      by (simp add: sample_parametric_modular_def sample_parametric_def d r
          returns_near_perimeter_def results_close_def)
  next
    case False
    with l show ?thesis
      by (simp add: sample_parametric_modular_def sample_parametric_def d results_close_def)
  qed
qed












section \<open>Properties of the sampling strategies\<close>

lemma unit_draws_example: "unit_draws example_draws"
  by (simp add: unit_draws_def example_draws_def)















text \<open>Rounding can put a coordinate outside \<open>[0, L]\<close>: with \<open>L = 0.1\<close> and a first
  draw of one half, the parameter is \<open>0.2\<close>, the product \<open>3 * L\<close> is
  \<open>0.30000000000000004\<close>, and the first point of \<open>sample_parametric\<close> has the
  abscissa \<open>0.10000000000000003\<close>, which is more than \<open>L\<close>.\<close>

lemma sample_parametric_rounds_outside:
  "sample_parametric dbl_0_1 half_draws
     = Some (Inr ((1801439850948199 / 2 ^ 54, dbl_0_1), (0, 0)), sconst 0)
   \<and> dbl_0_1 < 1801439850948199 / 2 ^ 54"
proof -
  have f4: "fmul 4 dbl_0_1 = 4 * dbl_0_1" by (rule fmul_4 [OF is_double_dbl_0_1])
  have f2: "fmul 2 dbl_0_1 = 2 * dbl_0_1" by (rule fmul_2 [OF is_double_dbl_0_1])
  have t: "uniform 0 (4 * dbl_0_1) half_draws = (2 * dbl_0_1, sconst 0)"
    "uniform 0 (4 * dbl_0_1) (sconst 0) = (0, sconst 0)"
    by (simp_all add: uniform_def half_draws_def)
  have l: "retry_while (\<lambda>t2. \<bar>2 * dbl_0_1 - t2\<bar> < tol12) (uniform 0 (4 * dbl_0_1))
             0 (sconst 0) = Some (0, sconst 0)"
    by (subst retry_while.simps) (simp add: tol12_def dbl_0_1_def)
  have e: "fl64 (1801439850948199 / 2 ^ 54) = 1801439850948199 / 2 ^ 54"
    by (rule fl64_dyadic [where n = 1801439850948199 and e = "- 54"]) (simp_all add: pow2_def)
  have v: "fmul 3 dbl_0_1 - 2 * dbl_0_1 = 1801439850948199 / 2 ^ 54"
    unfolding fmul_3_dbl_0_1 by (simp add: dbl_0_1_def)
  have x: "fsub (fmul 3 dbl_0_1) (2 * dbl_0_1) = 1801439850948199 / 2 ^ 54"
    unfolding fsub_def v by (rule e)
  have "\<not> 2 * dbl_0_1 < dbl_0_1" "2 * dbl_0_1 < fmul 3 dbl_0_1"
    unfolding fmul_3_dbl_0_1 by (simp_all add: dbl_0_1_def)
  then have p1: "point_parametric dbl_0_1 (2 * dbl_0_1)
                   = (1801439850948199 / 2 ^ 54, dbl_0_1)"
    by (simp add: point_parametric_def f2 x)
  have p2: "point_parametric dbl_0_1 0 = (0, 0)"
    by (simp add: point_parametric_def dbl_0_1_def)
  have r: "sample_parametric dbl_0_1 half_draws
             = Some (Inr ((1801439850948199 / 2 ^ 54, dbl_0_1), (0, 0)), sconst 0)"
    unfolding sample_parametric_def f4 t prod.case l option.case p1 p2 ..
  have "dbl_0_1 < 1801439850948199 / 2 ^ 54" by (simp add: dbl_0_1_def)
  with r show ?thesis by simp
qed

text \<open>Rounding can also leave a point of \<open>angle_to_point\<close> farther than \<open>1e-9\<close>
  from every side.  With \<open>L = 2^30\<close> and the angle of cosine \<open>-15/17\<close> and sine
  \<open>8/17\<close>, the product \<open>cos_t * scale\<close> is rounded to one unit in the last place
  short of \<open>L / 2\<close>, and the abscissa is \<open>2^(-24)\<close>, about \<open>5.96e-8\<close>, where the
  exact value is \<open>0\<close>.\<close>

lemma fl64_cos_example: "fl64 (- (15 / 17)) = - (1986882188545807 / 2 ^ 51)"
proof -
  have "fl64 (- (15 / 17))
      = of_int (round_half_even (- (15 / 17) / pow2 (- 1 - 52))) * pow2 (- 1 - 52)"
    by (rule fl64_at) (simp_all add: pow2_def)
  also have "- (15 / 17) / pow2 (- 1 - 52) = - (135107988821114880 / 17)"
    by (simp add: pow2_def)
  also have "round_half_even (- (135107988821114880 / 17)) = - 7947528754183228"
    by (simp add: round_half_even_def Let_def)
  finally show ?thesis by (simp add: pow2_def)
qed

lemma fl64_sin_example: "fl64 (8 / 17) = 4238682002231055 / 2 ^ 53"
proof -
  have "fl64 (8 / 17)
      = of_int (round_half_even (8 / 17 / pow2 (- 2 - 52))) * pow2 (- 2 - 52)"
    by (rule fl64_at) (simp_all add: pow2_def)
  also have "8 / 17 / pow2 (- 2 - 52) = 144115188075855872 / 17"
    by (simp add: pow2_def)
  also have "round_half_even (144115188075855872 / 17) = 8477364004462110"
    by (simp add: round_half_even_def Let_def)
  finally show ?thesis by (simp add: pow2_def)
qed

lemma fl64_scale_example:
  "fl64 (2 ^ 29 / (1986882188545807 / 2 ^ 51)) = 2552039788843281 / 2 ^ 22"
proof -
  have "fl64 (2 ^ 29 / (1986882188545807 / 2 ^ 51))
      = of_int (round_half_even (2 ^ 29 / (1986882188545807 / 2 ^ 51) / pow2 (29 - 52)))
        * pow2 (29 - 52)"
    by (rule fl64_at) (simp_all add: pow2_def)
  also have "2 ^ 29 / (1986882188545807 / 2 ^ 51) / pow2 (29 - 52)
      = (10141204801825835211973625643008 / 1986882188545807 :: real)"
    by (simp add: pow2_def)
  also have "round_half_even (10141204801825835211973625643008 / 1986882188545807)
      = 5104079577686562"
    by (simp add: round_half_even_def Let_def)
  finally show ?thesis by (simp add: pow2_def)
qed

lemma fl64_px_example:
  "fl64 (- (1986882188545807 / 2 ^ 51) * (2552039788843281 / 2 ^ 22))
     = - (9007199254740991 / 2 ^ 24)"
proof -
  have "fl64 (- (1986882188545807 / 2 ^ 51) * (2552039788843281 / 2 ^ 22))
      = of_int (round_half_even (- (1986882188545807 / 2 ^ 51) * (2552039788843281 / 2 ^ 22)
                                   / pow2 (28 - 52))) * pow2 (28 - 52)"
    by (rule fl64_at) (simp_all add: pow2_def)
  also have "- (1986882188545807 / 2 ^ 51) * (2552039788843281 / 2 ^ 22) / pow2 (28 - 52)
      = - (5070602400912917323408012672767 / 562949953421312 :: real)"
    by (simp add: pow2_def)
  also have "round_half_even (- (5070602400912917323408012672767 / 562949953421312))
      = - 9007199254740991"
    by (simp add: round_half_even_def Let_def)
  finally show ?thesis by (simp add: pow2_def)
qed

lemma fl64_x_example: "fl64 (2 ^ 29 + - (9007199254740991 / 2 ^ 24)) = 1 / 2 ^ 24"
proof -
  have "(2 ^ 29 + - (9007199254740991 / 2 ^ 24) :: real) = 1 / 2 ^ 24" by simp
  moreover have "fl64 (1 / 2 ^ 24) = 1 / 2 ^ 24"
    by (rule fl64_dyadic [where n = 1 and e = "- 24"]) (simp_all add: pow2_def)
  ultimately show ?thesis by (simp only:)
qed

lemma fl64_py_example:
  "fl64 (4238682002231055 / 2 ^ 53 * (2552039788843281 / 2 ^ 22))
     = 4803839602528529 / 2 ^ 24"
proof -
  have "fl64 (4238682002231055 / 2 ^ 53 * (2552039788843281 / 2 ^ 22))
      = of_int (round_half_even (4238682002231055 / 2 ^ 53 * (2552039788843281 / 2 ^ 22)
                                   / pow2 (28 - 52))) * pow2 (28 - 52)"
    by (rule fl64_at) (simp_all add: pow2_def)
  also have "4238682002231055 / 2 ^ 53 * (2552039788843281 / 2 ^ 22) / pow2 (28 - 52)
      = (10817285121947557126739746291455 / 2251799813685248 :: real)"
    by (simp add: pow2_def)
  also have "round_half_even (10817285121947557126739746291455 / 2251799813685248)
      = 4803839602528529"
    by (simp add: round_half_even_def Let_def)
  finally show ?thesis by (simp add: pow2_def)
qed

lemma fl64_y_example:
  "fl64 (2 ^ 29 + 4803839602528529 / 2 ^ 24) = 863189928579345 / 2 ^ 20"
proof -
  have "fl64 (2 ^ 29 + 4803839602528529 / 2 ^ 24)
      = of_int (round_half_even ((2 ^ 29 + 4803839602528529 / 2 ^ 24) / pow2 (29 - 52)))
        * pow2 (29 - 52)"
    by (rule fl64_at) (simp_all add: pow2_def)
  also have "(2 ^ 29 + 4803839602528529 / 2 ^ 24) / pow2 (29 - 52)
      = (13811038857269521 / 2 :: real)"
    by (simp add: pow2_def)
  also have "round_half_even (13811038857269521 / 2) = 6905519428634760"
    by (simp add: round_half_even_def Let_def)
  finally show ?thesis by (simp add: pow2_def)
qed

lemma trig_example:
  "cos (arccos (- (15 / 17))) = - (15 / 17)" "sin (arccos (- (15 / 17))) = 8 / 17"
proof -
  show "cos (arccos (- (15 / 17))) = - (15 / 17)" by (rule cos_arccos) simp_all
  have "sin (arccos (- (15 / 17))) = sqrt (1 - (- (15 / 17))\<^sup>2)"
    by (rule sin_arccos) simp_all
  also have "1 - (- (15 / 17 :: real))\<^sup>2 = (8 / 17)\<^sup>2" by (simp add: power2_eq_square)
  also have "sqrt ((8 / 17)\<^sup>2) = 8 / 17" by simp
  finally show "sin (arccos (- (15 / 17))) = 8 / 17" .
qed

lemma angle_to_point_misses_tolerance:
  "angle_to_point (2 ^ 30) (arccos (- (15 / 17)))
     = Inr (1 / 2 ^ 24, 863189928579345 / 2 ^ 20)
   \<and> \<not> is_on_perimeter (1 / 2 ^ 24, 863189928579345 / 2 ^ 20) (2 ^ 30) tol9"
proof -
  have h: "fl64 (2 ^ 30 / 2) = 2 ^ 29"
    using fl64_int [of "2 ^ 29"] by simp
  have a: "\<bar>- (1986882188545807 / 2 ^ 51 :: real)\<bar> = 1986882188545807 / 2 ^ 51"
    by simp
  have cmp: "\<bar>4238682002231055 / 2 ^ 53 :: real\<bar> \<le> 1986882188545807 / 2 ^ 51"
    by simp
  have nz: "(1986882188545807 / 2 ^ 51 :: real) \<noteq> 0" by simp
  have d: "py_fdiv (2 ^ 29) (1986882188545807 / 2 ^ 51) = Inr (2552039788843281 / 2 ^ 22)"
    unfolding py_fdiv_def fl64_scale_example using nz by (simp only: if_False)
  have cl: "max 0 (min (2 ^ 30) (1 / 2 ^ 24 :: real)) = 1 / 2 ^ 24"
    "max 0 (min (2 ^ 30) (863189928579345 / 2 ^ 20 :: real)) = 863189928579345 / 2 ^ 20"
    by simp_all
  have "angle_to_point (2 ^ 30) (arccos (- (15 / 17)))
          = Inr (1 / 2 ^ 24, 863189928579345 / 2 ^ 20)"
    unfolding angle_to_point_def Let_def trig_example fl64_cos_example fl64_sin_example h
      if_P [OF cmp] a d sum.case fmul_def fadd_def fl64_px_example fl64_py_example
      fl64_x_example fl64_y_example cl ..
  moreover have "\<not> is_on_perimeter (1 / 2 ^ 24, 863189928579345 / 2 ^ 20) (2 ^ 30) tol9"
    by (simp add: is_on_perimeter_def tol9_def)
  ultimately show ?thesis by simp
qed






text \<open>The four strategies whose loop tests \<open>_is_distinct\<close> on the points return
  distinct points.\<close>

lemma distinct_retry_shape_distinct:
  fixes D :: "rng \<Rightarrow> point \<times> rng"
  assumes "(case D s0 of (p1, s1) \<Rightarrow> case D s1 of (p2, s2) \<Rightarrow>
             (case retry_while (\<lambda>p2. \<not> is_distinct p1 p2 tol12) D p2 s2 of
               None \<Rightarrow> None
             | Some (p2, s3) \<Rightarrow> Some (Inr (p1, p2), s3))) = Some (Inr (q1, q2), s')"
  shows "is_distinct q1 q2 tol12"
proof -
  obtain p1 s1 where d1: "D s0 = (p1, s1)" by (cases "D s0")
  obtain p2 s2 where d2: "D s1 = (p2, s2)" by (cases "D s1")
  from assms obtain r where
    r: "retry_while (\<lambda>p2. \<not> is_distinct p1 p2 tol12) D p2 s2 = Some r"
    by (cases "retry_while (\<lambda>p2. \<not> is_distinct p1 p2 tol12) D p2 s2") (simp_all add: d1 d2)
  from retry_while_Some_iter [OF r] have "is_distinct p1 (fst r) tol12" by auto
  moreover from assms r have "q1 = p1" "q2 = fst r"
    by (simp_all add: d1 d2 split: prod.splits)
  ultimately show ?thesis by simp
qed

lemma point_retry_samplers_distinct:
  "sample_by_side L s = Some (Inr (q1, q2), s') \<Longrightarrow> is_distinct q1 q2 tol12"
  "sample_by_edge_label L s = Some (Inr (q1, q2), s') \<Longrightarrow> is_distinct q1 q2 tol12"
  "sample_cartesian L s = Some (Inr (q1, q2), s') \<Longrightarrow> is_distinct q1 q2 tol12"
  "sample_interior_projection L s = Some (Inr (q1, q2), s') \<Longrightarrow> is_distinct q1 q2 tol12"
  unfolding sample_by_side_def sample_by_edge_label_def sample_cartesian_def
    sample_interior_projection_def
  by (erule distinct_retry_shape_distinct)+

text \<open>\<open>sample_parametric\<close> tests the parameters, not the points: the two parameters
  \<open>1 - 2^(-41)\<close> and \<open>1 + 2^(-40)\<close>, which are \<open>1.36e-12\<close> apart on either side of
  the corner \<open>(1, 0)\<close>, end the loop, and the two points differ by \<open>4.5e-13\<close> and
  \<open>9.1e-13\<close> in their coordinates.\<close>

lemma sample_parametric_around_corner:
  "unit_draws around_corner_draws
   \<and> sample_parametric 1 around_corner_draws
       = Some (Inr ((1 - 1 / 2 ^ 41, 0), (1, 1 / 2 ^ 40)), sconst 0)
   \<and> \<not> are_distinct (1 - 1 / 2 ^ 41, 0) (1, 1 / 2 ^ 40) tol12"
proof -
  have u: "unit_draws around_corner_draws"
    by (simp add: unit_draws_def around_corner_draws_def)
  have f4: "fmul 4 1 = 4" by (simp add: fmul_def fl64_numeral)
  have f2: "fmul 2 1 = 2" by (simp add: fmul_def fl64_numeral)
  have t: "uniform 0 4 around_corner_draws
             = (1 - 1 / 2 ^ 41, (1 / 4 + 1 / 2 ^ 42) ## sconst 0)"
    "uniform 0 4 ((1 / 4 + 1 / 2 ^ 42) ## sconst 0) = (1 + 1 / 2 ^ 40, sconst 0)"
    by (simp_all add: uniform_def around_corner_draws_def)
  have l: "retry_while (\<lambda>t2. \<bar>1 - 1 / 2 ^ 41 - t2\<bar> < tol12) (uniform 0 4)
             (1 + 1 / 2 ^ 40) (sconst 0) = Some (1 + 1 / 2 ^ 40, sconst 0)"
    by (subst retry_while.simps) (simp add: tol12_def)
  have "fl64 (1 / 2 ^ 40) = 1 / 2 ^ 40"
    by (rule fl64_dyadic [where n = 1 and e = "- 40"]) (simp_all add: pow2_def)
  then have p: "point_parametric 1 (1 - 1 / 2 ^ 41) = (1 - 1 / 2 ^ 41, 0)"
    "point_parametric 1 (1 + 1 / 2 ^ 40) = (1, 1 / 2 ^ 40)"
    by (simp_all add: point_parametric_def f2 fsub_def)
  have r: "sample_parametric 1 around_corner_draws
             = Some (Inr ((1 - 1 / 2 ^ 41, 0), (1, 1 / 2 ^ 40)), sconst 0)"
    unfolding sample_parametric_def f4 t prod.case l option.case p ..
  have d: "\<not> are_distinct (1 - 1 / 2 ^ 41, 0) (1, 1 / 2 ^ 40) tol12"
    by (simp add: are_distinct_def tol12_def)
  from u r d show ?thesis by simp
qed

lemma unit_draws_corner: "unit_draws corner_draws"
  by (simp add: unit_draws_def corner_draws_def)

text \<open>
  Claim C2 at a failing input.  On draws that choose the sides \<open>bottom\<close> and \<open>left\<close> and
  the position \<open>0\<close> twice, \<open>sample_side_pos\<close> finds the sides different, does not
  retry, and returns the corner \<open>(0, 0)\<close> twice: the pair is not distinct.
\<close>

theorem sample_side_pos_corner_collision:
  "sample_side_pos 1 corner_draws = Some (Inr ((0, 0), (0, 0)), sconst 0)
   \<and> \<not> are_distinct (0, 0) (0, 0) tol12
   \<and> \<not> is_distinct (0, 0) (0, 0) tol12"
proof -
  have c: "choice SIDES corner_draws = (''bottom'', 1 / 2 ## 0 ## 0 ## sconst 0)"
    "choice SIDES (1 / 2 ## 0 ## 0 ## sconst 0) = (''left'', 0 ## 0 ## sconst 0)"
    "uniform 0 1 (0 ## 0 ## sconst 0) = (0, 0 ## sconst 0)"
    "uniform 0 1 (0 ## sconst 0) = (0, sconst 0)"
    by (simp_all add: choice_def uniform_def SIDES_def corner_draws_def)
  have l: "retry_while (\<lambda>(side2, v2). ''bottom'' = side2 \<and> \<bar>0 - v2\<bar> < tol12)
             (redraw_side_pos 1) (''left'', 0) (sconst 0) = Some ((''left'', 0), sconst 0)"
    by (subst retry_while.simps) simp
  have p: "point_side_pos 1 ''bottom'' 0 = (0, 0)" "point_side_pos 1 ''left'' 0 = (0, 0)"
    by (simp_all add: point_side_pos_def)
  have r: "sample_side_pos 1 corner_draws = Some (Inr ((0, 0), (0, 0)), sconst 0)"
    unfolding sample_side_pos_def c prod.case l option.case p ..
  have d: "\<not> are_distinct (0, 0) (0, 0) tol12" "\<not> is_distinct (0, 0) (0, 0) tol12"
    by (simp_all add: are_distinct_def is_distinct_def tol12_def)
  from r d show ?thesis by simp
qed

text \<open>
  Claim C3, as stated, at the side length \<open>-1\<close>: \<open>sample_parametric\<close> checks nothing
  and returns a pair of points.
\<close>

theorem sample_parametric_negative_side_returns:
  "(-1::real) \<le> 0
   \<and> sample_parametric (-1) example_draws
       = Some (Inr ((0, -4), (-2, 0)), stl (stl example_draws))"
proof -
  have f: "fmul 4 (-1) = -4" "fmul 3 (-1) = -3" "fmul 2 (-1) = -2"
    by (simp_all add: fmul_def fl64_neg_numeral)
  have t: "uniform 0 (-4) example_draws = (0, stl example_draws)"
    "uniform 0 (-4) (stl example_draws) = (-2, stl (stl example_draws))"
    by (simp_all add: uniform_def example_draws_def)
  have l: "retry_while (\<lambda>t2. \<bar>0 - t2\<bar> < tol12) (uniform 0 (-4))
             (-2) (stl (stl example_draws)) = Some (-2, stl (stl example_draws))"
    by (subst retry_while.simps) (simp add: tol12_def)
  have p: "point_parametric (-1) 0 = (0, -4)" "point_parametric (-1) (-2) = (-2, 0)"
    by (simp_all add: point_parametric_def f fsub_def fl64_neg_numeral)
  have "sample_parametric (-1) example_draws
          = Some (Inr ((0, -4), (-2, 0)), stl (stl example_draws))"
    unfolding sample_parametric_def f t prod.case l option.case p ..
  then show ?thesis by simp
qed

text \<open>None of the nine functions raises \<open>ValueError\<close>: seven raise nothing, and the
  modulo of \<open>_perimeter_to_xy\<close> and the division of \<open>angle_to_point\<close> can raise
  \<open>ZeroDivisionError\<close> only.\<close>

lemma retry_result_no_exception:
  "(case r of None \<Rightarrow> None | Some (b, s3) \<Rightarrow> Some (Inr (f b), s3)) \<noteq> Some (Inl e, s')"
  by (simp split: option.splits prod.splits)

lemma perimeter_to_xy_raises:
  "perimeter_to_xy t L = Inl e \<Longrightarrow> e = ZeroDivisionError"
  by (auto simp: perimeter_to_xy_def py_fmod_def Let_def split: sum.splits if_splits)

lemma angle_to_point_raises:
  "angle_to_point L theta = Inl e \<Longrightarrow> e = ZeroDivisionError"
  by (auto simp: angle_to_point_def py_fdiv_def Let_def split: sum.splits if_splits)

lemma sampling_functions_no_ValueError:
  "sample_parametric L s \<noteq> Some (Inl ValueError, s')"
  "sample_by_side L s \<noteq> Some (Inl ValueError, s')"
  "sample_by_edge_label L s \<noteq> Some (Inl ValueError, s')"
  "sample_polar_ray L s \<noteq> Some (Inl ValueError, s')"
  "sample_side_pos L s \<noteq> Some (Inl ValueError, s')"
  "sample_parametric_modular L s \<noteq> Some (Inl ValueError, s')"
  "sample_cartesian L s \<noteq> Some (Inl ValueError, s')"
  "sample_polar_angle L s \<noteq> Some (Inl ValueError, s')"
  "sample_interior_projection L s \<noteq> Some (Inl ValueError, s')"
proof -
  show "sample_parametric L s \<noteq> Some (Inl ValueError, s')"
    by (simp add: sample_parametric_def split: prod.splits option.splits)
  show "sample_by_side L s \<noteq> Some (Inl ValueError, s')"
    by (simp add: sample_by_side_def split: prod.splits option.splits)
  show "sample_by_edge_label L s \<noteq> Some (Inl ValueError, s')"
    by (simp add: sample_by_edge_label_def split: prod.splits option.splits)
  show "sample_polar_ray L s \<noteq> Some (Inl ValueError, s')"
    by (simp add: sample_polar_ray_def split: prod.splits option.splits)
  show "sample_side_pos L s \<noteq> Some (Inl ValueError, s')"
    by (simp add: sample_side_pos_def split: prod.splits option.splits)
  show "sample_parametric_modular L s \<noteq> Some (Inl ValueError, s')"
    using perimeter_to_xy_raises [of _ L ValueError]
    by (auto simp: sample_parametric_modular_def split: prod.splits option.splits sum.splits)
  show "sample_cartesian L s \<noteq> Some (Inl ValueError, s')"
    by (simp add: sample_cartesian_def split: prod.splits option.splits)
  show "sample_polar_angle L s \<noteq> Some (Inl ValueError, s')"
    using angle_to_point_raises [of L _ ValueError]
    by (auto simp: sample_polar_angle_def split: prod.splits option.splits sum.splits)
  show "sample_interior_projection L s \<noteq> Some (Inl ValueError, s')"
    by (simp add: sample_interior_projection_def split: prod.splits option.splits)
qed

text \<open>
  Claim C3, amended.  None of the nine module-level sampling functions checks its
  side length: for no finite \<open>L\<close>, \<open>L \<le> 0\<close> included, and no draws does any of them
  raise \<open>ValueError\<close>.  The class \<open>PerimeterSampler\<close> is abstract, so constructing
  it raises \<open>TypeError\<close> for every \<open>L\<close>.  Its \<open>__init__\<close>, which runs when a concrete
  subclass that inherits it is constructed, raises \<open>ValueError\<close> for every \<open>L \<le> 0\<close>
  (minus infinity included) and stores every other \<open>L\<close> (a NaN included) unchanged:
  it never clamps.
\<close>

theorem side_length_validation:
  "construct AbstractBase v = Inl TypeError
   \<and> (le_zero v \<longrightarrow> construct ConcreteSubclass v = Inl ValueError)
   \<and> (\<not> le_zero v \<longrightarrow> construct ConcreteSubclass v = Inr \<lparr>sampler_L = v\<rparr>)
   \<and> (\<forall>f \<in> set sampling_functions. f L s \<noteq> Some (Inl ValueError, s'))"
  using sampling_functions_no_ValueError [of L s s']
  by (simp add: construct_def PerimeterSampler_init_def sampling_functions_def)

theorem side_length_validation_witness:
  "construct AbstractBase (Finite 10) = Inl TypeError
   \<and> le_zero (Finite (- 1)) \<and> construct ConcreteSubclass (Finite (- 1)) = Inl ValueError
   \<and> le_zero (Finite 0) \<and> construct ConcreteSubclass (Finite 0) = Inl ValueError
   \<and> \<not> le_zero NaN \<and> construct ConcreteSubclass NaN = Inr \<lparr>sampler_L = NaN\<rparr>
   \<and> sample_by_side \<in> set sampling_functions
   \<and> sample_by_side (- 1) example_draws \<noteq> Some (Inl ValueError, sconst 0)"
  using side_length_validation [of "Finite 10" 0 example_draws "sconst 0"]
    side_length_validation [of "Finite (- 1)" "- 1" example_draws "sconst 0"]
    side_length_validation [of "Finite 0" 0 example_draws "sconst 0"]
    side_length_validation [of NaN 0 example_draws "sconst 0"]
  by (simp add: le_zero_def sampling_functions_def)

text \<open>
  Claim C8, as stated, at \<open>L = 0.1\<close> and \<open>t = 0.24\<close>, on the top side: the inline
  expression \<open>3 * L - t\<close> gives \<open>0.06000000000000005\<close> and the expression
  \<open>L - (t - 2 * L)\<close> of \<open>_perimeter_to_xy\<close> gives \<open>0.060000000000000026\<close>.
\<close>

theorem parametric_inline_differs_from_helper:
  "0 < dbl_0_1 \<and> is_double dbl_0_1 \<and> dbl_0_1 < pow2 1022
   \<and> is_double dbl_0_24 \<and> 0 \<le> dbl_0_24 \<and> dbl_0_24 < 4 * dbl_0_1
   \<and> point_parametric dbl_0_1 dbl_0_24 = (135107988821115 / 2 ^ 51, dbl_0_1)
   \<and> perimeter_to_xy dbl_0_24 dbl_0_1 = Inr (2161727821137839 / 2 ^ 55, dbl_0_1)
   \<and> perimeter_to_xy dbl_0_24 dbl_0_1 \<noteq> Inr (point_parametric dbl_0_1 dbl_0_24)"
proof -
  have f4: "fmul 4 dbl_0_1 = 4 * dbl_0_1" by (rule fmul_4 [OF is_double_dbl_0_1])
  have f2: "fmul 2 dbl_0_1 = 2 * dbl_0_1" by (rule fmul_2 [OF is_double_dbl_0_1])
  have b: "0 < dbl_0_1" "0 \<le> dbl_0_24" "dbl_0_24 < 4 * dbl_0_1"
    "\<not> dbl_0_24 < dbl_0_1" "\<not> dbl_0_24 < 2 * dbl_0_1" "dbl_0_24 < fmul 3 dbl_0_1"
    unfolding fmul_3_dbl_0_1 by (simp_all add: dbl_0_1_def dbl_0_24_def)
  have e1: "fl64 (135107988821115 / 2 ^ 51) = 135107988821115 / 2 ^ 51"
    by (rule fl64_dyadic [where n = 135107988821115 and e = "- 51"]) (simp_all add: pow2_def)
  have v1: "fmul 3 dbl_0_1 - dbl_0_24 = 135107988821115 / 2 ^ 51"
    unfolding fmul_3_dbl_0_1 by (simp add: dbl_0_24_def)
  have x1: "fsub (fmul 3 dbl_0_1) dbl_0_24 = 135107988821115 / 2 ^ 51"
    unfolding fsub_def v1 by (rule e1)
  have e2: "fl64 (720575940379279 / 2 ^ 54) = 720575940379279 / 2 ^ 54"
    by (rule fl64_dyadic [where n = 720575940379279 and e = "- 54"]) (simp_all add: pow2_def)
  have v2: "dbl_0_24 - 2 * dbl_0_1 = 720575940379279 / 2 ^ 54"
    by (simp add: dbl_0_1_def dbl_0_24_def)
  have x2: "fsub dbl_0_24 (2 * dbl_0_1) = 720575940379279 / 2 ^ 54"
    unfolding fsub_def v2 by (rule e2)
  have e3: "fl64 (2161727821137839 / 2 ^ 55) = 2161727821137839 / 2 ^ 55"
    by (rule fl64_dyadic [where n = 2161727821137839 and e = "- 55"]) (simp_all add: pow2_def)
  have v3: "dbl_0_1 - 720575940379279 / 2 ^ 54 = 2161727821137839 / 2 ^ 55"
    by (simp add: dbl_0_1_def)
  have x3: "fsub dbl_0_1 (720575940379279 / 2 ^ 54) = 2161727821137839 / 2 ^ 55"
    unfolding fsub_def v3 by (rule e3)
  have p: "point_parametric dbl_0_1 dbl_0_24 = (135107988821115 / 2 ^ 51, dbl_0_1)"
    using b by (simp add: point_parametric_def f2 x1)
  have "py_fmod dbl_0_24 (4 * dbl_0_1) = Inr dbl_0_24"
    using b(2,3) by (rule py_fmod_small)
  then have "perimeter_to_xy dbl_0_24 dbl_0_1
               = Inr (fsub dbl_0_1 (fsub dbl_0_24 (2 * dbl_0_1)), dbl_0_1)"
    using b by (simp add: perimeter_to_xy_def f4 f2)
  then have q: "perimeter_to_xy dbl_0_24 dbl_0_1 = Inr (2161727821137839 / 2 ^ 55, dbl_0_1)"
    unfolding x2 x3 .
  have "(2161727821137839 / 2 ^ 55 :: real) \<noteq> 135107988821115 / 2 ^ 51" by simp
  with b p q is_double_dbl_0_1 is_double_dbl_0_24 dbl_0_1_below show ?thesis by simp
qed

text \<open>
  Claim C8, amended.  For every side length \<open>L > 0\<close> that is a double below \<open>2^1022\<close>
  and every \<open>t\<close> in \<open>[0, 4L)\<close>, \<open>_perimeter_to_xy(t, L)\<close> returns a point without
  raising.  For \<open>t < 2L\<close>, on the bottom and on the right side, it is the point of the
  inline mapping of \<open>sample_parametric\<close>.  On the top side both points have
  the ordinate \<open>L\<close>, on the left side both have the abscissa \<open>0\<close>, and their other
  coordinates, which the two functions compute by different roundings, differ by at
  most \<open>4 * max (4L / 2^53) (2^(-1075))\<close>.  On the same draws from \<open>[0, 1)\<close> the
  strategies \<open>sample_parametric\<close> and \<open>sample_parametric_modular\<close> both do not
  return, or both return a pair of points and leave the same generator, and their
  points differ by at most that much in each coordinate.
\<close>

theorem parametric_inline_close_to_helper:
  assumes "0 < L" and "is_double L" and "L < pow2 1022"
    and "0 \<le> t" and "t < 4 * L" and "unit_draws s"
  shows "(\<exists>q. perimeter_to_xy t L = Inr q
            \<and> (t < 2 * L \<longrightarrow> q = point_parametric L t)
            \<and> (2 * L \<le> t \<and> t < fmul 3 L \<longrightarrow> snd q = L \<and> snd (point_parametric L t) = L)
            \<and> (fmul 3 L \<le> t \<longrightarrow> fst q = 0 \<and> fst (point_parametric L t) = 0)
            \<and> close_within (slack L) q (point_parametric L t))
       \<and> results_close (slack L) (sample_parametric_modular L s) (sample_parametric L s)"
  using parametric_mappings(2) [OF assms(1,2,4,5)]
    sample_parametric_modular_total [OF assms(1,2,6)]
  by blast

theorem parametric_inline_close_to_helper_witness:
  "(0::real) < 10 \<and> is_double 10 \<and> (10::real) < pow2 1022
   \<and> (0::real) \<le> 25 \<and> (25::real) < 4 * 10 \<and> unit_draws example_draws
   \<and> (\<exists>q. perimeter_to_xy 25 10 = Inr q
         \<and> snd q = 10 \<and> snd (point_parametric 10 25) = 10
         \<and> close_within (slack 10) q (point_parametric 10 25))
   \<and> results_close (slack 10) (sample_parametric_modular 10 example_draws)
        (sample_parametric 10 example_draws)"
proof -
  have d: "is_double 10" by (simp add: is_double_numeral)
  have f: "fmul 3 10 = 30" by (simp add: fmul_def fl64_numeral)
  from parametric_inline_close_to_helper [of 10 25 example_draws] d ten_below
    unit_draws_example
  obtain q where "perimeter_to_xy 25 10 = Inr q"
    "snd q = 10 \<and> snd (point_parametric 10 25) = 10"
    "close_within (slack 10) q (point_parametric 10 25)"
    "results_close (slack 10) (sample_parametric_modular 10 example_draws)
        (sample_parametric 10 example_draws)"
    by (auto simp: f)
  with d ten_below unit_draws_example show ?thesis by simp
qed

section \<open>Properties of the aggregator\<close>

lemma length_call_all: "length (fst (call_all methods L s)) = length methods"
proof (induction methods arbitrary: s)
  case Nil
  show ?case by simp
next
  case (Cons m methods)
  obtain name fn where m: "m = (name, fn)" by (cases m)
  obtain r s' where c: "fn L s = (r, s')" by (cases "fn L s")
  show ?case
    using Cons [of s'] by (auto simp: m c split: prod.splits)
qed

lemma length_outcome_rows: "length (fst (outcome_rows methods L n s)) = n"
proof (induction n arbitrary: s)
  case 0
  show ?case by simp
next
  case (Suc n)
  obtain row s' where c: "call_all methods L s = (row, s')" by (cases "call_all methods L s")
  obtain rows s'' where o: "outcome_rows methods L n s' = (rows, s'')"
    by (cases "outcome_rows methods L n s'")
  from Suc [of s'] o show ?case by (simp add: c)
qed

lemma run_row_call_all:
  "run_row methods L s = (map recorded (fst (call_all methods L s)), snd (call_all methods L s))"
proof (induction methods arbitrary: s)
  case Nil
  show ?case by simp
next
  case (Cons m methods)
  obtain name fn where m: "m = (name, fn)" by (cases m)
  obtain r s' where c: "fn L s = (r, s')" by (cases "fn L s")
  show ?case
    using Cons [of s'] by (cases r) (auto simp: m c recorded_def split: prod.splits)
qed

lemma length_run_row: "length (fst (run_row methods L s)) = length methods"
  by (simp add: run_row_call_all length_call_all)

lemma min_by_Min:
  fixes x :: "'a::linorder"
  shows "min_by (<) x rest = Min (set (x # rest))"
proof -
  have "(\<lambda>y best :: 'a. if y < best then y else best) = min"
    by (auto simp: fun_eq_iff min_def)
  then show ?thesis
    using Min.set_eq_fold [of x rest] by (simp add: min_by_def)
qed

lemma max_by_Max:
  fixes x :: "'a::linorder"
  shows "max_by (<) x rest = Max (set (x # rest))"
proof -
  have "(\<lambda>y best :: 'a. if best < y then y else best) = max"
    by (auto simp: fun_eq_iff max_def)
  then show ?thesis
    using Max.set_eq_fold [of x rest] by (simp add: max_by_def)
qed

lemma py_min_Min: "xs \<noteq> [] \<Longrightarrow> py_min xs = Inr (Min (set xs))"
  by (cases xs) (simp_all add: py_min_def min_by_Min)

lemma py_max_Max: "xs \<noteq> [] \<Longrightarrow> py_max xs = Inr (Max (set xs))"
  by (cases xs) (simp_all add: py_max_def max_by_Max)

lemma foldl_add_sum_list:
  fixes xs :: "'a::comm_monoid_add list"
  shows "foldl (+) a xs = a + sum_list xs"
  by (induction xs arbitrary: a) (simp_all add: add.assoc)

lemma py_sum_sum_list:
  fixes xs :: "'a::comm_monoid_add list"
  shows "py_sum xs = sum_list xs"
  by (simp add: py_sum_def foldl_add_sum_list)

lemma sum_list_ones: "sum_list (map (\<lambda>d. Suc 0) xs) = length xs"
  by (induction xs) simp_all

lemma distance_stats_nonempty:
  assumes "dlist \<noteq> []"
  shows "distance_stats dlist L = Inr (expected_stats dlist L)"
proof -
  have n: "real (length dlist) \<noteq> 0" using assms by simp
  let ?mean = "sum_list dlist / real (length dlist)"
  let ?var = "sum_list (map (\<lambda>d. (d - ?mean)\<^sup>2) dlist) / real (length dlist)"
  have "0 \<le> sum_list (map (\<lambda>d. (d - ?mean)\<^sup>2) dlist)"
    by (rule sum_list_nonneg) auto
  then have v: "\<not> ?var < 0"
    by (simp add: not_less)
  show ?thesis
    using n v assms
    by (simp add: distance_stats_def Let_def py_div_def py_sqrt_def py_sum_sum_list
        sum_list_ones py_min_Min py_max_Max expected_stats_def population_std_def)
qed

lemma valid_from_snd:
  "map snd (List.map_filter (\<lambda>(i, d). case d of None \<Rightarrow> None | Some x \<Rightarrow> Some (i, x))
              (enumerate n row))
   = List.map_filter (\<lambda>d. d) row"
  by (induction row arbitrary: n) (auto split: option.splits)

lemma valid_from_set:
  "(i, x) \<in> set (List.map_filter (\<lambda>(i, d). case d of None \<Rightarrow> None | Some x \<Rightarrow> Some (i, x))
                   (enumerate n row))
   \<longleftrightarrow> n \<le> i \<and> i < n + length row \<and> row ! (i - n) = Some x"
proof (induction row arbitrary: n)
  case Nil
  show ?case by simp
next
  case (Cons d row)
  show ?case
  proof (cases "i = n")
    case True
    then show ?thesis
      using Cons [of "Suc n"] by (auto split: option.splits)
  next
    case False
    have "(d # row) ! (i - n) = row ! (i - Suc n)" if "n < i"
      using that by (simp add: nth_Cons')
    with False have "(n \<le> i \<and> i < n + length (d # row) \<and> (d # row) ! (i - n) = Some x)
        \<longleftrightarrow> (Suc n \<le> i \<and> i < Suc n + length row \<and> row ! (i - Suc n) = Some x)"
      by auto
    with False show ?thesis
      using Cons [of "Suc n"] by (auto split: option.splits)
  qed
qed

lemma valid_from_distinct:
  "distinct (map fst (List.map_filter
      (\<lambda>(i, d). case d of None \<Rightarrow> None | Some x \<Rightarrow> Some (i, x)) (enumerate n row)))"
proof (induction row arbitrary: n)
  case Nil
  show ?case by simp
next
  case (Cons d row)
  have "n \<notin> fst ` set (List.map_filter
      (\<lambda>(i, d). case d of None \<Rightarrow> None | Some x \<Rightarrow> Some (i, x)) (enumerate (Suc n) row))"
    using valid_from_set [of n _ "Suc n" row] by auto
  then show ?case
    using Cons [of "Suc n"] by (auto split: option.splits)
qed

lemma valid_of_snd: "map snd (valid_of row) = successes row"
  by (simp add: valid_of_def successes_def valid_from_snd)

lemma valid_of_set: "(i, x) \<in> set (valid_of row) \<longleftrightarrow> i < length row \<and> row ! i = Some x"
  using valid_from_set [of i x 0 row] by (simp add: valid_of_def)

lemma valid_of_distinct: "distinct (map fst (valid_of row))"
  by (simp add: valid_of_def valid_from_distinct)

lemma valid_of_empty: "valid_of row = [] \<longleftrightarrow> successes row = []"
  using valid_of_snd [of row] by (metis map_is_Nil_conv)

lemma successes_set: "x \<in> set (successes row) \<longleftrightarrow> (\<exists>i < length row. row ! i = Some x)"
proof -
  have "x \<in> set (successes row) \<longleftrightarrow> (\<exists>i. (i, x) \<in> set (valid_of row))"
    unfolding valid_of_snd [symmetric] by force
  then show ?thesis by (simp add: valid_of_set)
qed

lemma fold_credit:
  assumes "distinct (map fst v)"
    and "\<forall>p \<in> set v. fst p < length mins \<and> fst p < length maxs"
  shows "\<exists>mins' maxs'.
           fold_exn (credit_step lo hi) v (mins, maxs) = Inr (mins', maxs')
         \<and> length mins' = length mins \<and> length maxs' = length maxs
         \<and> (\<forall>j < length mins. mins' ! j = mins ! j + credited v lo j)
         \<and> (\<forall>j < length maxs. maxs' ! j = maxs ! j + credited v hi j)"
  using assms
proof (induction v arbitrary: mins maxs)
  case Nil
  show ?case by (simp add: credited_def)
next
  case (Cons p v)
  obtain i d where p: "p = (i, d)" by (cases p)
  from Cons.prems p have i: "i < length mins" "i < length maxs" by simp_all
  define mins1 where "mins1 = (if isclose d lo rel_tol then mins[i := mins ! i + 1] else mins)"
  define maxs1 where "maxs1 = (if isclose d hi rel_tol then maxs[i := maxs ! i + 1] else maxs)"
  have step: "credit_step lo hi p (mins, maxs) = Inr (mins1, maxs1)"
    using i by (simp add: credit_step_def p bump_def mins1_def maxs1_def)
  have len: "length mins1 = length mins" "length maxs1 = length maxs"
    by (simp_all add: mins1_def maxs1_def)
  have d': "distinct (map fst v)" and fresh: "\<forall>q \<in> set v. fst q \<noteq> i"
    using Cons.prems(1) p by auto
  have rng: "\<forall>q \<in> set v. fst q < length mins1 \<and> fst q < length maxs1"
    using Cons.prems(2) len by simp
  from Cons.IH [OF d' rng] obtain mins' maxs' where
    r: "fold_exn (credit_step lo hi) v (mins1, maxs1) = Inr (mins', maxs')"
    and l: "length mins' = length mins1" "length maxs' = length maxs1"
    and m: "\<forall>j < length mins1. mins' ! j = mins1 ! j + credited v lo j"
    and x: "\<forall>j < length maxs1. maxs' ! j = maxs1 ! j + credited v hi j"
    by blast
  have ci: "credited v e i = 0" for e
    using fresh by (auto simp: credited_def)
  have cj: "credited (p # v) e j = credited v e j" if "j \<noteq> i" for e j
    using that by (auto simp: credited_def p)
  have cp: "credited (p # v) e i = (if isclose d e rel_tol then 1 else 0)" for e
    using fresh by (auto simp: credited_def p)
  have m': "mins' ! j = mins ! j + credited (p # v) lo j" if "j < length mins" for j
  proof (cases "j = i")
    case True
    then show ?thesis
      using m that len ci [of lo] cp [of lo] i by (simp add: mins1_def)
  next
    case False
    then show ?thesis
      using m that len cj [of j lo] by (simp add: mins1_def)
  qed
  have x': "maxs' ! j = maxs ! j + credited (p # v) hi j" if "j < length maxs" for j
  proof (cases "j = i")
    case True
    then show ?thesis
      using x that len ci [of hi] cp [of hi] i by (simp add: maxs1_def)
  next
    case False
    then show ?thesis
      using x that len cj [of j hi] by (simp add: maxs1_def)
  qed
  show ?case
    using step r l len m' x' by simp
qed

lemma fold_append_at:
  assumes "n + length row \<le> length ds"
  shows "\<exists>ds'. fold_exn (\<lambda>(i, d) ds. append_at i d ds) (enumerate n row) ds = Inr ds'
         \<and> length ds' = length ds
         \<and> (\<forall>j < length ds. ds' ! j =
               (if n \<le> j \<and> j < n + length row then ds ! j @ [row ! (j - n)] else ds ! j))"
  using assms
proof (induction row arbitrary: n ds)
  case Nil
  show ?case by simp
next
  case (Cons d row)
  define ds1 where "ds1 = ds[n := ds ! n @ [d]]"
  have n: "n < length ds" using Cons.prems by simp
  have step: "append_at n d ds = Inr ds1"
    using n by (simp add: append_at_def ds1_def)
  have "Suc n + length row \<le> length ds1"
    using Cons.prems by (simp add: ds1_def)
  from Cons.IH [OF this] obtain ds' where
    r: "fold_exn (\<lambda>(i, d) ds. append_at i d ds) (enumerate (Suc n) row) ds1 = Inr ds'"
    and l: "length ds' = length ds1"
    and e: "\<forall>j < length ds1. ds' ! j =
              (if Suc n \<le> j \<and> j < Suc n + length row then ds1 ! j @ [row ! (j - Suc n)]
               else ds1 ! j)"
    by blast
  have "ds' ! j = (if n \<le> j \<and> j < n + length (d # row) then ds ! j @ [(d # row) ! (j - n)]
                   else ds ! j)" if "j < length ds" for j
  proof (cases "j = n")
    case True
    then show ?thesis using e that by (simp add: ds1_def)
  next
    case False
    have "(d # row) ! (j - n) = row ! (j - Suc n)" if "n < j"
      using that by (simp add: nth_Cons')
    with False show ?thesis
      using e that by (auto simp: ds1_def)
  qed
  then show ?case
    using step r l by (simp add: ds1_def)
qed

lemma credited_valid_of:
  assumes "i < length row"
  shows "credited (valid_of row) ext i = win_credit row ext i"
  using assms by (cases "row ! i") (simp_all add: credited_def win_credit_def valid_of_set)

lemma win_credit_no_success:
  assumes "successes row = []" and "i < length row"
  shows "win_credit row ext i = 0"
proof (cases "row ! i")
  case None
  then show ?thesis by (simp add: win_credit_def)
next
  case (Some d)
  with assms(2) have "d \<in> set (successes row)" by (auto simp: successes_set)
  with assms(1) show ?thesis by simp
qed

lemma trial_step:
  assumes wf: "wf_data (length methods) data"
  shows "\<exists>data'.
           trial methods L (data, s) = Inr (data', snd (run_row methods L s))
         \<and> wf_data (length methods) data'
         \<and> (\<forall>i < length methods.
               distances data' ! i = distances data ! i @ [fst (run_row methods L s) ! i]
             \<and> min_wins data' ! i = min_wins data ! i
                 + win_credit (fst (run_row methods L s))
                     (Min (set (successes (fst (run_row methods L s))))) i
             \<and> max_wins data' ! i = max_wins data ! i
                 + win_credit (fst (run_row methods L s))
                     (Max (set (successes (fst (run_row methods L s))))) i)"
proof -
  obtain row s' where rr: "run_row methods L s = (row, s')" by (cases "run_row methods L s")
  have lr: "length row = length methods"
    using length_run_row [of methods L s] rr by simp
  from wf have ld: "length (distances data) = length methods"
    and lm: "length (min_wins data) = length methods"
    and lx: "length (max_wins data) = length methods"
    by (simp_all add: wf_data_def)
  let ?lo = "Min (set (successes row))" and ?hi = "Max (set (successes row))"
  have wins: "\<exists>mins maxs.
      (if valid_of row \<noteq> []
       then (case py_min (map snd (valid_of row)) of
               Inl e \<Rightarrow> Inl e
             | Inr min_d \<Rightarrow>
                 (case py_max (map snd (valid_of row)) of
                    Inl e \<Rightarrow> Inl e
                  | Inr max_d \<Rightarrow>
                      fold_exn (credit_step min_d max_d) (valid_of row)
                        (min_wins data, max_wins data)))
       else Inr (min_wins data, max_wins data)) = Inr (mins, maxs)
      \<and> length mins = length methods \<and> length maxs = length methods
      \<and> (\<forall>i < length methods. mins ! i = min_wins data ! i + win_credit row ?lo i)
      \<and> (\<forall>i < length methods. maxs ! i = max_wins data ! i + win_credit row ?hi i)"
  proof (cases "valid_of row = []")
    case True
    then have "successes row = []" by (simp add: valid_of_empty)
    then show ?thesis
      using True lm lx lr by (simp add: win_credit_no_success)
  next
    case False
    then have ne: "successes row \<noteq> []" by (simp add: valid_of_empty)
    have rng: "\<forall>p \<in> set (valid_of row).
        fst p < length (min_wins data) \<and> fst p < length (max_wins data)"
      using lm lx lr by (auto simp: valid_of_set)
    from fold_credit [OF valid_of_distinct rng, of ?lo ?hi] obtain mins maxs where
      f: "fold_exn (credit_step ?lo ?hi) (valid_of row) (min_wins data, max_wins data)
            = Inr (mins, maxs)"
      and l: "length mins = length (min_wins data)" "length maxs = length (max_wins data)"
      and m: "\<forall>j < length (min_wins data).
                mins ! j = min_wins data ! j + credited (valid_of row) ?lo j"
      and x: "\<forall>j < length (max_wins data).
                maxs ! j = max_wins data ! j + credited (valid_of row) ?hi j"
      by blast
    show ?thesis
      using False ne f l m x lm lx lr
      by (simp add: valid_of_snd py_min_Min py_max_Max credited_valid_of)
  qed
  then obtain mins maxs where
    w: "(if valid_of row \<noteq> []
       then (case py_min (map snd (valid_of row)) of
               Inl e \<Rightarrow> Inl e
             | Inr min_d \<Rightarrow>
                 (case py_max (map snd (valid_of row)) of
                    Inl e \<Rightarrow> Inl e
                  | Inr max_d \<Rightarrow>
                      fold_exn (credit_step min_d max_d) (valid_of row)
                        (min_wins data, max_wins data)))
       else Inr (min_wins data, max_wins data)) = Inr (mins, maxs)"
    and wl: "length mins = length methods" "length maxs = length methods"
    and wm: "\<forall>i < length methods. mins ! i = min_wins data ! i + win_credit row ?lo i"
    and wx: "\<forall>i < length methods. maxs ! i = max_wins data ! i + win_credit row ?hi i"
    by blast
  have "0 + length row \<le> length (distances data)" using ld lr by simp
  from fold_append_at [OF this] obtain ds where
    a: "fold_exn (\<lambda>(i, d) ds. append_at i d ds) (enumerate 0 row) (distances data) = Inr ds"
    and al: "length ds = length (distances data)"
    and ae: "\<forall>j < length (distances data). ds ! j =
               (if 0 \<le> j \<and> j < 0 + length row then distances data ! j @ [row ! (j - 0)]
                else distances data ! j)"
    by blast
  have t: "trial methods L (data, s) = Inr (\<lparr>distances = ds, min_wins = mins, max_wins = maxs\<rparr>, s')"
    unfolding trial_def prod.case rr Let_def w sum.case a ..
  show ?thesis
    using t al ae wl wm wx ld lr by (simp add: rr wf_data_def)
qed

lemma run_loop_snoc:
  "run_loop methods L (Suc n) st =
     (case run_loop methods L n st of Inl e \<Rightarrow> Inl e | Inr st' \<Rightarrow> trial methods L st')"
proof (induction n arbitrary: st)
  case 0
  show ?case by (simp split: sum.splits)
next
  case (Suc n)
  show ?case
  proof (cases "trial methods L st")
    case (Inl e)
    then show ?thesis by simp
  next
    case (Inr st')
    have "run_loop methods L (Suc (Suc n)) st = run_loop methods L (Suc n) st'"
      using Inr by simp
    also have "\<dots> = (case run_loop methods L n st' of
                        Inl e \<Rightarrow> Inl e | Inr st'' \<Rightarrow> trial methods L st'')"
      by (rule Suc)
    also have "run_loop methods L n st' = run_loop methods L (Suc n) st"
      using Inr by simp
    finally show ?thesis .
  qed
qed

lemma snd_run_row: "snd (run_row methods L s) = snd (call_all methods L s)"
  by (simp add: run_row_call_all)

lemma nth_run_row:
  "i < length methods \<Longrightarrow>
   fst (run_row methods L s) ! i = recorded (fst (call_all methods L s) ! i)"
  by (simp add: run_row_call_all length_call_all)

lemma run_loop_total:
  assumes "wf_data (length methods) data"
  shows "\<exists>data'.
           run_loop methods L n (data, s) = Inr (data', snd (outcome_rows methods L n s))
         \<and> wf_data (length methods) data'
         \<and> (\<forall>i < length methods.
               distances data' ! i
               = distances data ! i
                 @ map (\<lambda>row. recorded (row ! i)) (fst (outcome_rows methods L n s)))"
  using assms
proof (induction n arbitrary: data s)
  case 0
  then show ?case by simp
next
  case (Suc n)
  from trial_step [OF Suc.prems, of L s] obtain data1 where
    t: "trial methods L (data, s) = Inr (data1, snd (run_row methods L s))"
    and w: "wf_data (length methods) data1"
    and d: "\<forall>i < length methods.
              distances data1 ! i = distances data ! i @ [fst (run_row methods L s) ! i]"
    by blast
  let ?s1 = "snd (call_all methods L s)"
  from Suc.IH [OF w, of ?s1] obtain data' where
    r: "run_loop methods L n (data1, ?s1) = Inr (data', snd (outcome_rows methods L n ?s1))"
    and w': "wf_data (length methods) data'"
    and d': "\<forall>i < length methods.
               distances data' ! i
               = distances data1 ! i
                 @ map (\<lambda>row. recorded (row ! i)) (fst (outcome_rows methods L n ?s1))"
    by blast
  have o: "outcome_rows methods L (Suc n) s
        = (fst (call_all methods L s) # fst (outcome_rows methods L n ?s1),
           snd (outcome_rows methods L n ?s1))"
    by (simp split: prod.splits)
  show ?case
    using t r w' d d' by (simp add: o snd_run_row nth_run_row del: outcome_rows.simps)
qed

lemma wf_data_initial:
  "wf_data N \<lparr>distances = replicate N [], min_wins = replicate N 0, max_wins = replicate N 0\<rparr>"
  by (simp add: wf_data_def)

lemma run_all_total:
  "\<exists>data.
     run_all methods L n s = Inr (data, snd (outcome_rows methods L n s))
   \<and> wf_data (length methods) data
   \<and> (\<forall>i < length methods.
         distances data ! i = map (\<lambda>row. recorded (row ! i)) (fst (outcome_rows methods L n s)))"
  using run_loop_total [OF wf_data_initial, of methods L n s]
  by (simp add: run_all_def Let_def)

lemma run_all_step:
  "\<exists>data s1 data'.
     run_all methods L n s = Inr (data, s1)
   \<and> s1 = snd (outcome_rows methods L n s)
   \<and> wf_data (length methods) data
   \<and> run_all methods L (Suc n) s = Inr (data', snd (run_row methods L s1))
   \<and> wf_data (length methods) data'
   \<and> (\<forall>i < length methods.
         distances data' ! i = distances data ! i @ [fst (run_row methods L s1) ! i]
       \<and> min_wins data' ! i = min_wins data ! i
           + win_credit (fst (run_row methods L s1))
               (Min (set (successes (fst (run_row methods L s1))))) i
       \<and> max_wins data' ! i = max_wins data ! i
           + win_credit (fst (run_row methods L s1))
               (Max (set (successes (fst (run_row methods L s1))))) i)"
proof -
  from run_all_total [of methods L n s] obtain data where
    r: "run_all methods L n s = Inr (data, snd (outcome_rows methods L n s))"
    and w: "wf_data (length methods) data"
    by blast
  let ?s1 = "snd (outcome_rows methods L n s)"
  from trial_step [OF w, of L ?s1] obtain data' where
    t: "trial methods L (data, ?s1) = Inr (data', snd (run_row methods L ?s1))"
    and rest: "wf_data (length methods) data'"
      "\<forall>i < length methods.
         distances data' ! i = distances data ! i @ [fst (run_row methods L ?s1) ! i]
       \<and> min_wins data' ! i = min_wins data ! i
           + win_credit (fst (run_row methods L ?s1))
               (Min (set (successes (fst (run_row methods L ?s1))))) i
       \<and> max_wins data' ! i = max_wins data ! i
           + win_credit (fst (run_row methods L ?s1))
               (Max (set (successes (fst (run_row methods L ?s1))))) i"
    by blast
  have "run_all methods L (Suc n) s = Inr (data', snd (run_row methods L ?s1))"
    using r t unfolding run_all_def Let_def run_loop_snoc by simp
  with r w rest show ?thesis by blast
qed

lemma summarize_one_wf:
  assumes "wf_data N data" and "i < N"
  shows "summarize_one data L i
         = Inr (expected_summary (successes (distances data ! i)) L
                  (min_wins data ! i) (max_wins data ! i))"
proof (cases "successes (distances data ! i) = []")
  case True
  then show ?thesis
    using assms by (simp add: summarize_one_def wf_data_def successes_def expected_summary_def)
next
  case False
  then show ?thesis
    using assms distance_stats_nonempty [OF False, of L]
    by (simp add: summarize_one_def wf_data_def successes_def [symmetric] Let_def
        expected_summary_def expected_stats_def)
qed

lemma summarize_loop_map:
  assumes "\<forall>i \<in> set js. summarize_one data L i = Inr (f i)"
  shows "summarize_loop data L js = Inr (map f js)"
  using assms by (induction js) simp_all

lemma summarize_wf:
  assumes "wf_data N data"
  shows "summarize N data L
         = Inr (map (\<lambda>i. expected_summary (successes (distances data ! i)) L
                            (min_wins data ! i) (max_wins data ! i)) [0..<N])"
  unfolding summarize_def
  by (rule summarize_loop_map) (simp add: summarize_one_wf [OF assms])

lemma analyze_distances_call_many:
  "analyze_distances fn L n s
   = (successes (map recorded (fst (call_many fn L n s))), snd (call_many fn L n s))"
proof (induction n arbitrary: s)
  case 0
  show ?case by (simp add: successes_def)
next
  case (Suc n)
  obtain r s' where c: "fn L s = (r, s')" by (cases "fn L s")
  show ?case
    using Suc [of s']
    by (cases r) (auto simp: c recorded_def successes_def split: prod.splits)
qed

lemma analyze_expected:
  "analyze fn L n s
   = (let es = successes (map recorded (fst (call_many fn L n s)))
      in Inr (if es = [] then (0, 0, 0, 0, 0, 0) else expected_stats es L,
              snd (call_many fn L n s)))"
proof (cases "successes (map recorded (fst (call_many fn L n s))) = []")
  case True
  then show ?thesis by (simp add: analyze_def analyze_distances_call_many)
next
  case False
  then show ?thesis
    using distance_stats_nonempty [OF False, of L]
    by (simp add: analyze_def analyze_distances_call_many Let_def)
qed

lemma successes_count:
  "length (successes (map (\<lambda>row. recorded (f row)) rows))
   = length (filter (\<lambda>row. \<not> isl (f row)) rows)"
proof (induction rows)
  case Nil
  show ?case by (simp add: successes_def)
next
  case (Cons row rows)
  then show ?case
    by (cases "f row") (auto simp: successes_def recorded_def split: prod.splits)
qed

lemma successes_snoc_None: "successes (xs @ [None]) = successes xs"
  by (simp add: successes_def map_filter_def)

lemma euclidean_example: "euclidean (0, 0) (1, 0) = 1" "euclidean (0, 0) (2, 0) = 2"
  by (simp_all add: euclidean_def)

lemma call_all_example:
  "call_all example_methods L 0
     = ([Inr ((0, 0), (1, 0)), Inr ((0, 0), (2, 0)), Inl OtherError], 1)"
  "call_all example_methods L (Suc 0)
     = ([Inr ((0, 0), (1, 0)), Inl OtherError, Inl OtherError], 2)"
  "call_all example_methods L 2
     = ([Inr ((0, 0), (1, 0)), Inr ((0, 0), (2, 0)), Inl OtherError], 3)"
  by (simp_all add: example_methods_def near_strategy_def flaky_strategy_def broken_strategy_def)

lemma outcome_rows_example:
  "outcome_rows example_methods L 0 0 = ([], 0)"
  "outcome_rows example_methods L 1 0
     = ([[Inr ((0, 0), (1, 0)), Inr ((0, 0), (2, 0)), Inl OtherError]], 1)"
  "outcome_rows example_methods L 3 0
     = ([[Inr ((0, 0), (1, 0)), Inr ((0, 0), (2, 0)), Inl OtherError],
         [Inr ((0, 0), (1, 0)), Inl OtherError, Inl OtherError],
         [Inr ((0, 0), (1, 0)), Inr ((0, 0), (2, 0)), Inl OtherError]], 3)"
  by (simp_all add: numeral_3_eq_3 call_all_example
      call_all_example(3) [unfolded numeral_2_eq_2])

lemma call_many_example:
  "call_many flaky_strategy L 3 0
     = ([Inr ((0, 0), (2, 0)), Inl OtherError, Inr ((0, 0), (2, 0))], 3)"
  "call_many broken_strategy L 2 0 = ([Inl OtherError, Inl OtherError], 0)"
  by (simp_all add: numeral_3_eq_3 numeral_2_eq_2 flaky_strategy_def broken_strategy_def)

lemma successes_example:
  "successes [Some 2, None, Some 2] = [2, 2]"
  "successes [Some 1, Some 2, None] = [1, 2]"
  "successes [None, None, None] = []"
  "successes [None, None] = []"
  by (simp_all add: successes_def)

lemma isclose_refl: "isclose d d r"
  by (simp add: isclose_def)

lemma some_strategy_attains:
  assumes "successes row \<noteq> []" and "m \<in> set (successes row)"
  shows "\<exists>i < length row. win_credit row m i = 1"
proof -
  from assms(2) obtain i where "i < length row" "row ! i = Some m"
    by (auto simp: successes_set)
  then have "win_credit row m i = 1"
    by (simp add: win_credit_def isclose_refl)
  with \<open>i < length row\<close> show ?thesis by blast
qed

text \<open>
  Claim C4.  For a method with at least one recorded distance, \<open>summarize\<close> (after
  \<open>run_all\<close>) and \<open>analyze\<close> return: the number of recorded distances strictly
  greater than \<open>L\<close>; as attempts the number of trials in which the strategy did not
  raise; the sum of the recorded distances divided by the attempts; the square root of
  the population variance (divided by the attempts); the minimum and the maximum of the
  recorded distances.
\<close>

theorem summary_statistics:
  assumes "i < length methods"
    and "ds = successes (map (\<lambda>row. recorded (row ! i)) (fst (outcome_rows methods L n s)))"
    and "ds \<noteq> []"
    and "es = successes (map recorded (fst (call_many fn L n s)))"
    and "es \<noteq> []"
  shows "(\<exists>data s' rs.
            run_all methods L n s = Inr (data, s')
          \<and> summarize (length methods) data L = Inr rs
          \<and> length rs = length methods
          \<and> rs ! i = (length (filter (\<lambda>d. L < d) ds), length ds,
                       sum_list ds / real (length ds), population_std ds,
                       Min (set ds), Max (set ds), min_wins data ! i, max_wins data ! i))
       \<and> length ds
           = length (filter (\<lambda>row. \<not> isl (row ! i)) (fst (outcome_rows methods L n s)))
       \<and> (\<exists>s'. analyze fn L n s
                  = Inr ((length (filter (\<lambda>d. L < d) es), length es,
                          sum_list es / real (length es), population_std es,
                          Min (set es), Max (set es)), s'))
       \<and> length es = length (filter (\<lambda>r. \<not> isl r) (fst (call_many fn L n s)))"
proof -
  from run_all_total [of methods L n s] obtain data where
    r: "run_all methods L n s = Inr (data, snd (outcome_rows methods L n s))"
    and w: "wf_data (length methods) data"
    and d: "\<forall>i < length methods.
              distances data ! i
              = map (\<lambda>row. recorded (row ! i)) (fst (outcome_rows methods L n s))"
    by blast
  have ds: "successes (distances data ! i) = ds"
    using d assms(1,2) by simp
  let ?rs = "map (\<lambda>i. expected_summary (successes (distances data ! i)) L
                         (min_wins data ! i) (max_wins data ! i)) [0..<length methods]"
  have s: "summarize (length methods) data L = Inr ?rs"
    by (rule summarize_wf [OF w])
  have "?rs ! i = (length (filter (\<lambda>d. L < d) ds), length ds,
                   sum_list ds / real (length ds), population_std ds,
                   Min (set ds), Max (set ds), min_wins data ! i, max_wins data ! i)"
    using assms(1,3) by (simp add: ds expected_summary_def)
  with r s have first: "\<exists>data s' rs.
            run_all methods L n s = Inr (data, s')
          \<and> summarize (length methods) data L = Inr rs
          \<and> length rs = length methods
          \<and> rs ! i = (length (filter (\<lambda>d. L < d) ds), length ds,
                       sum_list ds / real (length ds), population_std ds,
                       Min (set ds), Max (set ds), min_wins data ! i, max_wins data ! i)"
    by - (rule exI [where x = data], rule exI [where x = "snd (outcome_rows methods L n s)"],
        rule exI [where x = "?rs"],
        simp)
  have second: "length ds
      = length (filter (\<lambda>row. \<not> isl (row ! i)) (fst (outcome_rows methods L n s)))"
    unfolding assms(2) by (rule successes_count)
  have third: "\<exists>s'. analyze fn L n s
                  = Inr ((length (filter (\<lambda>d. L < d) es), length es,
                          sum_list es / real (length es), population_std es,
                          Min (set es), Max (set es)), s')"
    using assms(4,5) by (simp add: analyze_expected expected_stats_def Let_def)
  have fourth: "length es = length (filter (\<lambda>r. \<not> isl r) (fst (call_many fn L n s)))"
    unfolding assms(4) by (rule successes_count)
  from first second third fourth show ?thesis by blast
qed

theorem summary_statistics_witness:
  "(1::nat) < length example_methods
   \<and> successes (map (\<lambda>row. recorded (row ! 1)) (fst (outcome_rows example_methods (3 / 2) 3 0)))
       = [2, 2]
   \<and> successes (map recorded (fst (call_many flaky_strategy (3 / 2) 3 0))) = [2, 2]
   \<and> (\<exists>data s' rs.
          run_all example_methods (3 / 2) 3 0 = Inr (data, s')
        \<and> summarize (length example_methods) data (3 / 2) = Inr rs
        \<and> rs ! 1 = (2, 2, 2, 0, 2, 2, min_wins data ! 1, max_wins data ! 1))
   \<and> (\<exists>s'. analyze flaky_strategy (3 / 2) 3 0 = Inr ((2, 2, 2, 0, 2, 2), s'))"
proof -
  have i: "(1::nat) < length example_methods"
    by (simp add: example_methods_def)
  have ds: "successes (map (\<lambda>row. recorded (row ! 1))
               (fst (outcome_rows example_methods (3 / 2) 3 0))) = [2, 2]"
    by (simp add: outcome_rows_example recorded_def euclidean_example successes_example)
  have es: "successes (map recorded (fst (call_many flaky_strategy (3 / 2) 3 0))) = [2, 2]"
    by (simp add: call_many_example recorded_def euclidean_example successes_example)
  have v: "population_std [2, 2] = 0"
    by (simp add: population_std_def)
  from summary_statistics [where i = 1 and methods = example_methods and L = "3 / 2"
        and n = 3 and s = 0 and fn = flaky_strategy and ds = "[2, 2]" and es = "[2, 2]",
        OF i ds [symmetric] _ es [symmetric]]
  obtain data s' rs s'' where
    "run_all example_methods (3 / 2) 3 0 = Inr (data, s')"
    "summarize (length example_methods) data (3 / 2) = Inr rs"
    "rs ! 1 = (2, 2, 2, 0, 2, 2, min_wins data ! 1, max_wins data ! 1)"
    "analyze flaky_strategy (3 / 2) 3 0 = Inr ((2, 2, 2, 0, 2, 2), s'')"
    unfolding v by auto
  with i ds es show ?thesis by blast
qed

text \<open>
  Claim C10.  For a method with no recorded distance (every trial failed, or there was
  no trial), \<open>summarize\<close> returns the record of zeros, win tallies included, and
  \<open>analyze\<close> returns its record of zeros; neither raises.
\<close>

theorem summary_of_nothing_is_zero:
  "(i < length methods
    \<and> successes (map (\<lambda>row. recorded (row ! i)) (fst (outcome_rows methods L n s))) = []
    \<longrightarrow> (\<exists>data s' rs.
            run_all methods L n s = Inr (data, s')
          \<and> summarize (length methods) data L = Inr rs
          \<and> length rs = length methods
          \<and> rs ! i = (0, 0, 0, 0, 0, 0, 0, 0)))
   \<and> (successes (map recorded (fst (call_many fn L n s))) = []
      \<longrightarrow> (\<exists>s'. analyze fn L n s = Inr ((0, 0, 0, 0, 0, 0), s')))"
proof -
  from run_all_total [of methods L n s] obtain data where
    r: "run_all methods L n s = Inr (data, snd (outcome_rows methods L n s))"
    and w: "wf_data (length methods) data"
    and d: "\<forall>i < length methods.
              distances data ! i
              = map (\<lambda>row. recorded (row ! i)) (fst (outcome_rows methods L n s))"
    by blast
  let ?rs = "map (\<lambda>i. expected_summary (successes (distances data ! i)) L
                         (min_wins data ! i) (max_wins data ! i)) [0..<length methods]"
  have s: "summarize (length methods) data L = Inr ?rs"
    by (rule summarize_wf [OF w])
  have "?rs ! i = (0, 0, 0, 0, 0, 0, 0, 0)"
    if "i < length methods"
      and "successes (map (\<lambda>row. recorded (row ! i)) (fst (outcome_rows methods L n s))) = []"
    using that d by (simp add: expected_summary_def)
  with r s have first: "i < length methods
    \<and> successes (map (\<lambda>row. recorded (row ! i)) (fst (outcome_rows methods L n s))) = []
    \<longrightarrow> (\<exists>data s' rs.
            run_all methods L n s = Inr (data, s')
          \<and> summarize (length methods) data L = Inr rs
          \<and> length rs = length methods
          \<and> rs ! i = (0, 0, 0, 0, 0, 0, 0, 0))"
    by - (intro impI, rule exI [where x = data],
        rule exI [where x = "snd (outcome_rows methods L n s)"], rule exI [where x = "?rs"],
        simp)
  have second: "successes (map recorded (fst (call_many fn L n s))) = []
      \<longrightarrow> (\<exists>s'. analyze fn L n s = Inr ((0, 0, 0, 0, 0, 0), s'))"
    by (simp add: analyze_expected)
  from first second show ?thesis by blast
qed

theorem summary_of_nothing_is_zero_witness:
  "(2::nat) < length example_methods
   \<and> successes (map (\<lambda>row. recorded (row ! 2)) (fst (outcome_rows example_methods 10 3 0))) = []
   \<and> (\<exists>data s' rs.
          run_all example_methods 10 3 0 = Inr (data, s')
        \<and> summarize (length example_methods) data 10 = Inr rs
        \<and> rs ! 2 = (0, 0, 0, 0, 0, 0, 0, 0))
   \<and> successes (map recorded (fst (call_many broken_strategy 10 2 0))) = []
   \<and> (\<exists>s'. analyze broken_strategy 10 2 0 = Inr ((0, 0, 0, 0, 0, 0), s'))
   \<and> successes (map (\<lambda>row. recorded (row ! 0)) (fst (outcome_rows example_methods 10 0 0))) = []
   \<and> (\<exists>data s' rs.
          run_all example_methods 10 0 0 = Inr (data, s')
        \<and> summarize (length example_methods) data 10 = Inr rs
        \<and> rs ! 0 = (0, 0, 0, 0, 0, 0, 0, 0))"
proof -
  have i: "(2::nat) < length example_methods" "(0::nat) < length example_methods"
    by (simp_all add: example_methods_def)
  have ds: "successes (map (\<lambda>row. recorded (row ! 2))
               (fst (outcome_rows example_methods 10 3 0))) = []"
    by (simp add: outcome_rows_example recorded_def successes_example)
  have es: "successes (map recorded (fst (call_many broken_strategy 10 2 0))) = []"
    by (simp add: call_many_example recorded_def successes_example)
  have zs: "successes (map (\<lambda>row. recorded (row ! 0))
               (fst (outcome_rows example_methods 10 0 0))) = []"
    by (simp add: successes_def)
  from summary_of_nothing_is_zero [of 2 example_methods 10 3 0 broken_strategy] i(1) ds
  have a: "\<exists>data s' rs.
          run_all example_methods 10 3 0 = Inr (data, s')
        \<and> summarize (length example_methods) data 10 = Inr rs
        \<and> rs ! 2 = (0, 0, 0, 0, 0, 0, 0, 0)"
    by blast
  from summary_of_nothing_is_zero [of 0 example_methods 10 2 0 broken_strategy] es
  have b: "\<exists>s'. analyze broken_strategy 10 2 0 = Inr ((0, 0, 0, 0, 0, 0), s')"
    by blast
  from summary_of_nothing_is_zero [of 0 example_methods 10 0 0 broken_strategy] i(2) zs
  have c: "\<exists>data s' rs.
          run_all example_methods 10 0 0 = Inr (data, s')
        \<and> summarize (length example_methods) data 10 = Inr rs
        \<and> rs ! 0 = (0, 0, 0, 0, 0, 0, 0, 0)"
    by blast
  from i(1) ds a es b zs c show ?thesis by (intro conjI)
qed

text \<open>
  Claim C5.  In the trial that follows \<open>n\<close> trials of \<open>run_all\<close>, if at least one
  strategy succeeds: every strategy gains one min-win exactly when it succeeded with a
  distance within relative tolerance \<open>1e-9\<close> of the least distance of the trial, and
  one max-win exactly when within that tolerance of the greatest; at least one min-win
  and at least one max-win are given.
\<close>

theorem trial_credits_every_extremum:
  "\<exists>data s1 data' s2.
     run_all methods L n s = Inr (data, s1)
   \<and> s1 = snd (outcome_rows methods L n s)
   \<and> run_all methods L (Suc n) s = Inr (data', s2)
   \<and> (successes (fst (run_row methods L s1)) \<noteq> [] \<longrightarrow>
        (\<forall>i < length methods.
            min_wins data' ! i = min_wins data ! i
              + win_credit (fst (run_row methods L s1))
                  (Min (set (successes (fst (run_row methods L s1))))) i
          \<and> max_wins data' ! i = max_wins data ! i
              + win_credit (fst (run_row methods L s1))
                  (Max (set (successes (fst (run_row methods L s1))))) i)
      \<and> (\<exists>i < length methods. min_wins data' ! i = min_wins data ! i + 1)
      \<and> (\<exists>i < length methods. max_wins data' ! i = max_wins data ! i + 1))"
proof -
  from run_all_step [of methods L n s] obtain data s1 data' where
    r: "run_all methods L n s = Inr (data, s1)"
    and s1: "s1 = snd (outcome_rows methods L n s)"
    and r': "run_all methods L (Suc n) s = Inr (data', snd (run_row methods L s1))"
    and c: "\<forall>i < length methods.
         distances data' ! i = distances data ! i @ [fst (run_row methods L s1) ! i]
       \<and> min_wins data' ! i = min_wins data ! i
           + win_credit (fst (run_row methods L s1))
               (Min (set (successes (fst (run_row methods L s1))))) i
       \<and> max_wins data' ! i = max_wins data ! i
           + win_credit (fst (run_row methods L s1))
               (Max (set (successes (fst (run_row methods L s1))))) i"
    by blast
  let ?row = "fst (run_row methods L s1)"
  have len: "length ?row = length methods" by (rule length_run_row)
  have least: "\<exists>i < length methods. min_wins data' ! i = min_wins data ! i + 1"
    if ne: "successes ?row \<noteq> []"
  proof -
    have "Min (set (successes ?row)) \<in> set (successes ?row)"
      using ne by (intro Min_in) simp_all
    from some_strategy_attains [OF ne this] obtain i where
      "i < length ?row" "win_credit ?row (Min (set (successes ?row))) i = 1" by blast
    with c len show ?thesis by auto
  qed
  have greatest: "\<exists>i < length methods. max_wins data' ! i = max_wins data ! i + 1"
    if ne: "successes ?row \<noteq> []"
  proof -
    have "Max (set (successes ?row)) \<in> set (successes ?row)"
      using ne by (intro Max_in) simp_all
    from some_strategy_attains [OF ne this] obtain i where
      "i < length ?row" "win_credit ?row (Max (set (successes ?row))) i = 1" by blast
    with c len show ?thesis by auto
  qed
  show ?thesis
    using r s1 r' c least greatest
    by - (rule exI [where x = data], rule exI [where x = s1], rule exI [where x = data'],
        rule exI [where x = "snd (run_row methods L s1)"],
        simp)
qed

lemma run_row_example:
  "run_row example_methods L 0 = ([Some 1, Some 2, None], 1)"
  by (simp add: run_row_call_all call_all_example recorded_def euclidean_example)

lemma length_example_methods: "length example_methods = 3"
  by (simp add: example_methods_def)

theorem trial_credits_every_extremum_witness:
  "\<exists>data data'.
     run_all example_methods 10 0 0 = Inr (data, 0)
   \<and> run_all example_methods 10 1 0 = Inr (data', 1)
   \<and> successes (fst (run_row example_methods 10 0)) = [1, 2]
   \<and> min_wins data' ! 0 = min_wins data ! 0 + 1
   \<and> min_wins data' ! 1 = min_wins data ! 1
   \<and> min_wins data' ! 2 = min_wins data ! 2
   \<and> max_wins data' ! 0 = max_wins data ! 0
   \<and> max_wins data' ! 1 = max_wins data ! 1 + 1
   \<and> max_wins data' ! 2 = max_wins data ! 2"
proof -
  from trial_credits_every_extremum [of example_methods 10 0 0] obtain data s1 data' s2 where
    r: "run_all example_methods 10 0 0 = Inr (data, s1)"
    and s1: "s1 = snd (outcome_rows example_methods 10 0 0)"
    and r': "run_all example_methods 10 (Suc 0) 0 = Inr (data', s2)"
    and c: "successes (fst (run_row example_methods 10 s1)) \<noteq> [] \<longrightarrow>
        (\<forall>i < length example_methods.
            min_wins data' ! i = min_wins data ! i
              + win_credit (fst (run_row example_methods 10 s1))
                  (Min (set (successes (fst (run_row example_methods 10 s1))))) i
          \<and> max_wins data' ! i = max_wins data ! i
              + win_credit (fst (run_row example_methods 10 s1))
                  (Max (set (successes (fst (run_row example_methods 10 s1))))) i)"
    by blast
  have z: "s1 = 0" using s1 by simp
  have s2: "s2 = 1"
    using r' run_all_total [of example_methods 10 "Suc 0" 0]
    by (simp add: call_all_example)
  have su: "successes (fst (run_row example_methods 10 0)) = [1, 2]"
    by (simp add: run_row_example successes_example)
  have all: "\<forall>i < 3.
            min_wins data' ! i = min_wins data ! i + win_credit [Some 1, Some 2, None] 1 i
          \<and> max_wins data' ! i = max_wins data ! i + win_credit [Some 1, Some 2, None] 2 i"
    using c unfolding z su length_example_methods by (simp add: run_row_example)
  have w: "win_credit [Some 1, Some 2, None] 1 0 = 1"
    "win_credit [Some 1, Some 2, None] 1 1 = 0"
    "win_credit [Some 1, Some 2, None] 1 2 = 0"
    "win_credit [Some 1, Some 2, None] 2 0 = 0"
    "win_credit [Some 1, Some 2, None] 2 1 = 1"
    "win_credit [Some 1, Some 2, None] 2 2 = 0"
    by (simp_all add: win_credit_def isclose_def rel_tol_def)
  have "min_wins data' ! 0 = min_wins data ! 0 + 1 \<and> max_wins data' ! 0 = max_wins data ! 0"
    using all [rule_format, of 0] unfolding w by simp
  moreover
  have "min_wins data' ! 1 = min_wins data ! 1 \<and> max_wins data' ! 1 = max_wins data ! 1 + 1"
    using all [rule_format, of 1] unfolding w by simp
  moreover
  have "min_wins data' ! 2 = min_wins data ! 2 \<and> max_wins data' ! 2 = max_wins data ! 2"
    using all [rule_format, of 2] unfolding w by simp
  ultimately show ?thesis
    using r r' su unfolding z s2 by simp
qed

text \<open>
  Claim C6.  \<open>run_all\<close> never raises, whatever the strategies do, and it records one
  entry for every strategy in every one of the \<open>n\<close> trials: \<open>None\<close> where the call
  raised, the distance where it returned.  In the trial that follows, a strategy that
  raises gets \<open>None\<close>, no further attempt, no min-win and no max-win, while every
  strategy that returns, before or after it in the table, gets its distance recorded.
\<close>

theorem failures_are_absorbed:
  "\<exists>data s1 data' s2.
     run_all methods L n s = Inr (data, s1)
   \<and> s1 = snd (outcome_rows methods L n s)
   \<and> run_all methods L (Suc n) s = Inr (data', s2)
   \<and> s2 = snd (call_all methods L s1)
   \<and> length (distances data) = length methods
   \<and> (\<forall>i < length methods. length (distances data ! i) = n)
   \<and> (\<forall>i < length methods.
         distances data ! i
         = map (\<lambda>row. recorded (row ! i)) (fst (outcome_rows methods L n s)))
   \<and> (\<forall>i < length methods. \<forall>e.
         fst (call_all methods L s1) ! i = Inl e \<longrightarrow>
           distances data' ! i = distances data ! i @ [None]
         \<and> length (successes (distances data' ! i)) = length (successes (distances data ! i))
         \<and> min_wins data' ! i = min_wins data ! i
         \<and> max_wins data' ! i = max_wins data ! i)
   \<and> (\<forall>j < length methods. \<forall>p1 p2.
         fst (call_all methods L s1) ! j = Inr (p1, p2) \<longrightarrow>
           distances data' ! j = distances data ! j @ [Some (euclidean p1 p2)])"
proof -
  from run_all_step [of methods L n s] obtain data s1 data' where
    r: "run_all methods L n s = Inr (data, s1)"
    and s1: "s1 = snd (outcome_rows methods L n s)"
    and w: "wf_data (length methods) data"
    and r': "run_all methods L (Suc n) s = Inr (data', snd (run_row methods L s1))"
    and c: "\<forall>i < length methods.
         distances data' ! i = distances data ! i @ [fst (run_row methods L s1) ! i]
       \<and> min_wins data' ! i = min_wins data ! i
           + win_credit (fst (run_row methods L s1))
               (Min (set (successes (fst (run_row methods L s1))))) i
       \<and> max_wins data' ! i = max_wins data ! i
           + win_credit (fst (run_row methods L s1))
               (Max (set (successes (fst (run_row methods L s1))))) i"
    by blast
  from run_all_total [of methods L n s] r have
    d: "\<forall>i < length methods.
         distances data ! i
         = map (\<lambda>row. recorded (row ! i)) (fst (outcome_rows methods L n s))"
    by auto
  have len: "length (distances data) = length methods"
    using w by (simp add: wf_data_def)
  have all_trials: "\<forall>i < length methods. length (distances data ! i) = n"
    using d by (simp add: length_outcome_rows)
  have failed: "distances data' ! i = distances data ! i @ [None]
         \<and> length (successes (distances data' ! i)) = length (successes (distances data ! i))
         \<and> min_wins data' ! i = min_wins data ! i
         \<and> max_wins data' ! i = max_wins data ! i"
    if "i < length methods" and "fst (call_all methods L s1) ! i = Inl e" for i e
  proof -
    have "fst (run_row methods L s1) ! i = None"
      using that by (simp add: nth_run_row recorded_def)
    then show ?thesis
      using c that(1) by (simp add: win_credit_def successes_snoc_None)
  qed
  have returned: "distances data' ! j = distances data ! j @ [Some (euclidean p1 p2)]"
    if "j < length methods" and "fst (call_all methods L s1) ! j = Inr (p1, p2)" for j p1 p2
  proof -
    have "fst (run_row methods L s1) ! j = Some (euclidean p1 p2)"
      using that by (simp add: nth_run_row recorded_def)
    then show ?thesis
      using c that(1) by simp
  qed
  show ?thesis
    using r s1 r' len all_trials d failed returned
    by - (rule exI [where x = data], rule exI [where x = s1], rule exI [where x = data'],
        rule exI [where x = "snd (run_row methods L s1)"],
        simp add: snd_run_row successes_snoc_None)
qed

theorem failures_are_absorbed_witness:
  "\<exists>data data'.
     run_all example_methods 10 1 0 = Inr (data, 1)
   \<and> run_all example_methods 10 2 0 = Inr (data', 2)
   \<and> fst (call_all example_methods 10 1) ! 1 = Inl OtherError
   \<and> fst (call_all example_methods 10 1) ! 0 = Inr ((0, 0), (1, 0))
   \<and> distances data ! 0 = [Some 1] \<and> distances data ! 1 = [Some 2] \<and> distances data ! 2 = [None]
   \<and> distances data' ! 1 = [Some 2, None]
   \<and> min_wins data' ! 1 = min_wins data ! 1
   \<and> max_wins data' ! 1 = max_wins data ! 1
   \<and> distances data' ! 0 = [Some 1, Some 1]
   \<and> distances data' ! 2 = [None, None]"
proof -
  from failures_are_absorbed [of example_methods 10 1 0] obtain data s1 data' s2 where
    r: "run_all example_methods 10 1 0 = Inr (data, s1)"
    and s1: "s1 = snd (outcome_rows example_methods 10 1 0)"
    and r': "run_all example_methods 10 (Suc 1) 0 = Inr (data', s2)"
    and s2: "s2 = snd (call_all example_methods 10 s1)"
    and d: "\<forall>i < length example_methods.
         distances data ! i
         = map (\<lambda>row. recorded (row ! i)) (fst (outcome_rows example_methods 10 1 0))"
    and f: "\<forall>i < length example_methods. \<forall>e.
         fst (call_all example_methods 10 s1) ! i = Inl e \<longrightarrow>
           distances data' ! i = distances data ! i @ [None]
         \<and> length (successes (distances data' ! i)) = length (successes (distances data ! i))
         \<and> min_wins data' ! i = min_wins data ! i
         \<and> max_wins data' ! i = max_wins data ! i"
    and g: "\<forall>j < length example_methods. \<forall>p1 p2.
         fst (call_all example_methods 10 s1) ! j = Inr (p1, p2) \<longrightarrow>
           distances data' ! j = distances data ! j @ [Some (euclidean p1 p2)]"
    by blast
  have one: "s1 = 1" using s1 unfolding outcome_rows_example by simp
  have two: "s2 = 2" using s2 unfolding one One_nat_def call_all_example by simp
  have len: "length example_methods = 3" by (rule length_example_methods)
  have c: "fst (call_all example_methods 10 1) ! 0 = Inr ((0, 0), (1, 0))"
    "fst (call_all example_methods 10 1) ! 1 = Inl OtherError"
    "fst (call_all example_methods 10 1) ! 2 = Inl OtherError"
    unfolding One_nat_def call_all_example by simp_all
  have rows: "map (\<lambda>row. recorded (row ! i)) (fst (outcome_rows example_methods 10 1 0))
      = [recorded ([Inr ((0, 0), (1, 0)), Inr ((0, 0), (2, 0)), Inl OtherError] ! i)]" for i
    unfolding outcome_rows_example by simp
  have d0: "distances data ! 0 = [Some 1]"
    using d [rule_format, of 0] unfolding rows len
    by (simp add: recorded_def euclidean_example)
  have d1: "distances data ! 1 = [Some 2]"
    using d [rule_format, of 1] unfolding rows len
    by (simp add: recorded_def euclidean_example)
  have d2: "distances data ! 2 = [None]"
    using d [rule_format, of 2] unfolding rows len
    by (simp add: recorded_def)
  have f1: "distances data' ! 1 = distances data ! 1 @ [None]
      \<and> min_wins data' ! 1 = min_wins data ! 1 \<and> max_wins data' ! 1 = max_wins data ! 1"
    using f [rule_format, of 1 OtherError] c(2) unfolding len one by simp
  have f2: "distances data' ! 2 = distances data ! 2 @ [None]"
    using f [rule_format, of 2 OtherError] c(3) unfolding len one by simp
  have g0: "distances data' ! 0 = distances data ! 0 @ [Some (euclidean (0, 0) (1, 0))]"
    using g [rule_format, of 0 "(0, 0)" "(1, 0)"] c(1) unfolding len one by simp
  have n2: "Suc 1 = 2" by simp
  show ?thesis
    using r r' c d0 d1 d2 f1 f2 g0 unfolding one two n2
    by - (rule exI [where x = data], rule exI [where x = data'],
        simp add: euclidean_example)
qed

end
